theory Spec2Isabelle
  imports Complex_Main
begin

section \<open>The dipole worker (dipole-worker.js)\<close>

text \<open>
  A shallow embedding of the simulation worker. JavaScript numbers are modelled as
  \<^typ>\<open>real\<close>: rounding, NaN and the infinities of IEEE arithmetic are not
  represented, and the rounding to single precision on a store into a
  \<^verbatim>\<open>Float32Array\<close> is left out. Array indices, capacities and buffer lengths are
  \<^typ>\<open>nat\<close>. A thrown exception is a value \<open>Inl e\<close>; the state a throwing
  handler leaves behind is not represented.
\<close>

subsection \<open>Math objects\<close>

text \<open>The fields \<^verbatim>\<open>x\<close>, \<^verbatim>\<open>y\<close>, \<^verbatim>\<open>z\<close>, \<^verbatim>\<open>w\<close> of the source are
  \<open>vx\<close>, \<open>vy\<close>, \<open>vz\<close> on a vector and \<open>qx\<close>, \<open>qy\<close>, \<open>qz\<close>, \<open>qw\<close> on a quaternion.\<close>

record vec3 =
  vx :: real
  vy :: real
  vz :: real

record quat =
  qx :: real
  qy :: real
  qz :: real
  qw :: real

text \<open>A \<^verbatim>\<open>Float32Array\<close> of 16 entries, column-major.\<close>

type_synonym mat4 = "real list"

definition Vec3_create :: vec3 where
  "Vec3_create = \<lparr>vx = 0, vy = 0, vz = 0\<rparr>"

definition Vec3_set :: "real \<Rightarrow> real \<Rightarrow> real \<Rightarrow> vec3" where
  "Vec3_set x y z = \<lparr>vx = x, vy = y, vz = z\<rparr>"

text \<open>\<^verbatim>\<open>Vec3.normalize(out, a)\<close>: \<open>out\<close> keeps its old value when \<open>a\<close> has length 0.\<close>

definition Vec3_normalize :: "vec3 \<Rightarrow> vec3 \<Rightarrow> vec3" where
  "Vec3_normalize out a =
     (let len = vx a * vx a + vy a * vy a + vz a * vz a in
      if len > 0 then
        (let len' = 1 / sqrt len in
         \<lparr>vx = vx a * len', vy = vy a * len', vz = vz a * len'\<rparr>)
      else out)"

definition Quat_create :: quat where
  "Quat_create = \<lparr>qx = 0, qy = 0, qz = 0, qw = 1\<rparr>"

definition Quat_setFromAxisAngle :: "vec3 \<Rightarrow> real \<Rightarrow> quat" where
  "Quat_setFromAxisAngle ax angle =
     (let halfAngle = angle / 2; s = sin halfAngle in
      \<lparr>qx = vx ax * s, qy = vy ax * s, qz = vz ax * s, qw = cos halfAngle\<rparr>)"

definition Quat_multiply :: "quat \<Rightarrow> quat \<Rightarrow> quat" where
  "Quat_multiply a b =
     (let ax = qx a; ay = qy a; az = qz a; aw = qw a;
          bx = qx b; by = qy b; bz = qz b; bw = qw b in
      \<lparr>qx = ax * bw + aw * bx + ay * bz - az * by,
       qy = ay * bw + aw * by + az * bx - ax * bz,
       qz = az * bw + aw * bz + ax * by - ay * bx,
       qw = aw * bw - ax * bx - ay * by - az * bz\<rparr>)"

definition Quat_setFromEuler :: "vec3 \<Rightarrow> quat" where
  "Quat_setFromEuler euler =
     (let x = vx euler; y = vy euler; z = vz euler;
          c1 = cos (x / 2); c2 = cos (y / 2); c3 = cos (z / 2);
          s1 = sin (x / 2); s2 = sin (y / 2); s3 = sin (z / 2) in
      \<lparr>qx = s1 * c2 * c3 + c1 * s2 * s3,
       qy = c1 * s2 * c3 - s1 * c2 * s3,
       qz = c1 * c2 * s3 + s1 * s2 * c3,
       qw = c1 * c2 * c3 - s1 * s2 * s3\<rparr>)"

definition Mat4_create :: mat4 where
  "Mat4_create = [1,0,0,0, 0,1,0,0, 0,0,1,0, 0,0,0,1]"

definition Mat4_compose :: "vec3 \<Rightarrow> quat \<Rightarrow> vec3 \<Rightarrow> mat4" where
  "Mat4_compose pos q scale =
     (let x = qx q; y = qy q; z = qz q; w = qw q;
          x2 = x + x; y2 = y + y; z2 = z + z;
          xx = x * x2; xy = x * y2; xz = x * z2;
          yy = y * y2; yz = y * z2; zz = z * z2;
          wx = w * x2; wy = w * y2; wz = w * z2;
          sx = vx scale; sy = vy scale; sz = vz scale in
      [(1 - (yy + zz)) * sx, (xy + wz) * sx, (xz - wy) * sx, 0,
       (xy - wz) * sy, (1 - (xx + zz)) * sy, (yz + wx) * sy, 0,
       (xz + wy) * sz, (yz - wx) * sz, (1 - (xx + yy)) * sz, 0,
       vx pos, vy pos, vz pos, 1])"

text \<open>One column of \<^verbatim>\<open>Mat4.multiply\<close>: the four entries computed from
  \<open>b0 .. b3\<close> and the sixteen entries of \<open>a\<close>.\<close>

definition Mat4_column :: "mat4 \<Rightarrow> real \<Rightarrow> real \<Rightarrow> real \<Rightarrow> real \<Rightarrow> real list" where
  "Mat4_column a b0 b1 b2 b3 =
     [b0 * (a ! 0) + b1 * (a ! 4) + b2 * (a ! 8) + b3 * (a ! 12),
      b0 * (a ! 1) + b1 * (a ! 5) + b2 * (a ! 9) + b3 * (a ! 13),
      b0 * (a ! 2) + b1 * (a ! 6) + b2 * (a ! 10) + b3 * (a ! 14),
      b0 * (a ! 3) + b1 * (a ! 7) + b2 * (a ! 11) + b3 * (a ! 15)]"

definition Mat4_multiply :: "mat4 \<Rightarrow> mat4 \<Rightarrow> mat4" where
  "Mat4_multiply a b =
     Mat4_column a (b ! 0) (b ! 1) (b ! 2) (b ! 3) @
     Mat4_column a (b ! 4) (b ! 5) (b ! 6) (b ! 7) @
     Mat4_column a (b ! 8) (b ! 9) (b ! 10) (b ! 11) @
     Mat4_column a (b ! 12) (b ! 13) (b ! 14) (b ! 15)"

definition Mat4_makeTranslation :: "real \<Rightarrow> real \<Rightarrow> real \<Rightarrow> mat4" where
  "Mat4_makeTranslation x y z = [1,0,0,0, 0,1,0,0, 0,0,1,0, x,y,z,1]"

subsection \<open>Worker state\<close>

record dipole =
  life :: real
  maxLife :: real
  maxScale :: real
  axis :: vec3
  instanceIndex :: nat
  position :: vec3
  quaternion :: quat

record sim_params =
  dipoleLifetime :: real
  speed :: real
  creationProbability :: real
  maxScaleBase :: real
  scaleVariance :: real
  spinSpeed :: real

text \<open>
  The module-level variables of the worker, followed by the part of the environment the
  worker acts on: \<open>heap\<close> gives the \<^verbatim>\<open>Float32Array\<close> contents of every
  \<^verbatim>\<open>ArrayBuffer\<close> by an identifier of its memory block, \<open>nextBuffer\<close> is the
  first identifier not yet in use, and \<open>posted\<close> is the log of the
  \<^verbatim>\<open>matricesUpdate\<close> messages sent so far, oldest first, each with the pair of
  blocks it transferred. \<open>redMatricesBuffer\<close> and \<open>blueMatricesBuffer\<close> hold the
  block the variable of that name refers to (\<open>None\<close>: \<^verbatim>\<open>undefined\<close>); the views
  \<^verbatim>\<open>redMatrices\<close> and \<^verbatim>\<open>blueMatrices\<close> are always assigned together with
  them and are not separate fields. The scratch objects (\<^verbatim>\<open>dummyMatrix\<close>,
  \<^verbatim>\<open>tempAxis\<close>, ...) are fully overwritten before each read and appear as local
  values.
\<close>

record worker =
  dipoles :: "dipole list"
  instanceIndices :: "nat list"
  activeDipoleIndices :: "nat list"
  maxDipoles :: nat
  params :: sim_params
  lobeOffset :: real
  redMatricesBuffer :: "nat option"
  blueMatricesBuffer :: "nat option"
  matrixOffsetRed :: mat4
  matrixOffsetBlue :: mat4
  lastTimestamp :: real
  simulationRunning :: bool
  heap :: "nat \<Rightarrow> real list"
  nextBuffer :: nat
  posted :: "(nat \<times> nat) list"

datatype js_error = TypeError | RangeError | DataCloneError

text \<open>
  The state when the script has loaded. \<^verbatim>\<open>params = {}\<close> has no fields; the
  only read of a parameter before \<^verbatim>\<open>init\<close> is in the spawn test, which fails
  anyway because \<open>instanceIndices\<close> is empty, so the model starts from zeros.
\<close>

definition initial_params :: sim_params where
  "initial_params = \<lparr>dipoleLifetime = 0, speed = 0, creationProbability = 0,
     maxScaleBase = 0, scaleVariance = 0, spinSpeed = 0\<rparr>"

definition initial_worker :: worker where
  "initial_worker = \<lparr>dipoles = [], instanceIndices = [], activeDipoleIndices = [],
     maxDipoles = 0, params = initial_params, lobeOffset = 0,
     redMatricesBuffer = None, blueMatricesBuffer = None,
     matrixOffsetRed = Mat4_create, matrixOffsetBlue = Mat4_create,
     lastTimestamp = 0, simulationRunning = False,
     heap = (\<lambda>_. []), nextBuffer = 0, posted = []\<rparr>"

subsection \<open>Buffers\<close>

text \<open>\<^verbatim>\<open>new ArrayBuffer(n)\<close> viewed as a \<^verbatim>\<open>Float32Array\<close>: a new block of
  \<open>n div 4\<close> zeros.\<close>

definition newArrayBuffer :: "nat \<Rightarrow> worker \<Rightarrow> nat \<times> worker" where
  "newArrayBuffer byteLength s =
     (nextBuffer s,
      s\<lparr>heap := (heap s)(nextBuffer s := replicate (byteLength div 4) 0),
        nextBuffer := Suc (nextBuffer s)\<rparr>)"

text \<open>\<^verbatim>\<open>view.set(m, offset)\<close>: throws on an undefined view and when the source
  does not fit.\<close>

definition Float32Array_set :: "nat option \<Rightarrow> real list \<Rightarrow> nat \<Rightarrow> worker \<Rightarrow> js_error + worker" where
  "Float32Array_set view m offset s =
     (case view of
        None \<Rightarrow> Inl TypeError
      | Some k \<Rightarrow>
          if offset + length m \<le> length (heap s k) then
            Inr (s\<lparr>heap := (heap s)(k := take offset (heap s k) @ m @
                                        drop (offset + length m) (heap s k))\<rparr>)
          else Inl RangeError)"

text \<open>The sixteen floats of slot \<open>i\<close> in block \<open>k\<close>.\<close>

definition slot :: "worker \<Rightarrow> nat \<Rightarrow> nat \<Rightarrow> real list" where
  "slot s k i = take 16 (drop (i * 16) (heap s k))"

definition byteLength :: "worker \<Rightarrow> nat \<Rightarrow> nat" where
  "byteLength s k = 4 * length (heap s k)"

subsection \<open>Simulation logic\<close>

definition updateInstanceMatrix :: "dipole \<Rightarrow> real \<Rightarrow> worker \<Rightarrow> js_error + worker" where
  "updateInstanceMatrix dipole scale s =
     (let index = instanceIndex dipole;
          matrixIndex = index * 16;
          dummyScale = Vec3_set scale scale scale;
          dummyMatrix = Mat4_compose (position dipole) (quaternion dipole) dummyScale;
          finalMatrixRed = Mat4_multiply dummyMatrix (matrixOffsetRed s) in
      case Float32Array_set (redMatricesBuffer s) finalMatrixRed matrixIndex s of
        Inl e \<Rightarrow> Inl e
      | Inr s1 \<Rightarrow>
          (let finalMatrixBlue = Mat4_multiply dummyMatrix (matrixOffsetBlue s1) in
           Float32Array_set (blueMatricesBuffer s1) finalMatrixBlue matrixIndex s1))"

text \<open>
  \<^verbatim>\<open>createDipole()\<close>. \<open>r k\<close> is the value of the \<open>k\<close>-th call of
  \<^verbatim>\<open>Math.random()\<close> the function makes (eleven calls, \<open>r 0\<close> to \<open>r 10\<close>).
\<close>

definition createDipole :: "(nat \<Rightarrow> real) \<Rightarrow> worker \<Rightarrow> js_error + worker" where
  "createDipole r s =
     (if length (instanceIndices s) = 0 then Inr s
      else
        (let idx = last (instanceIndices s);
             s1 = s\<lparr>instanceIndices := butlast (instanceIndices s),
                    activeDipoleIndices := activeDipoleIndices s @ [idx]\<rparr> in
         if idx \<ge> length (dipoles s1) then Inl TypeError
         else
           (let d0 = dipoles s1 ! idx;
                l = dipoleLifetime (params s1) * (0.8 + r 0 * 0.4);
                d1 = d0\<lparr>life := l, maxLife := l,
                        maxScale := maxScaleBase (params s1) *
                                    (1 + (r 1 - 0.5) * 2 * scaleVariance (params s1)),
                        axis := Vec3_normalize (axis d0)
                                  (Vec3_set (r 2 - 0.5) (r 3 - 0.5) (r 4 - 0.5)),
                        instanceIndex := idx\<rparr>;
                range = 4;
                d2 = d1\<lparr>position := Vec3_set ((r 5 - 0.5) * range * 2)
                                              ((r 6 - 0.5) * range * 2)
                                              ((r 7 - 0.5) * range * 2),
                        quaternion := Quat_setFromEuler
                                        (Vec3_set (r 8 * pi * 2) (r 9 * pi * 2) (r 10 * pi * 2))\<rparr>;
                s2 = s1\<lparr>dipoles := (dipoles s1)[idx := d2]\<rparr> in
            updateInstanceMatrix d2 0.001 s2)))"

definition deltaTime :: "worker \<Rightarrow> real \<Rightarrow> real" where
  "deltaTime s timestamp =
     (if lastTimestamp s > 0 then (timestamp - lastTimestamp s) / 1000 else 0.016)"

text \<open>The spawn decision of \<^verbatim>\<open>updateSimulation\<close>: \<open>rnd 0\<close> is the draw compared
  with \<open>createChance\<close>, \<open>rnd 1 ..\<close> are the draws of \<open>createDipole\<close>.\<close>

definition spawnDecision :: "real \<Rightarrow> (nat \<Rightarrow> real) \<Rightarrow> worker \<Rightarrow> js_error + worker" where
  "spawnDecision dt rnd s =
     (let createChance = creationProbability (params s) * dt in
      if rnd 0 < createChance \<and> length (instanceIndices s) > 0
      then createDipole (\<lambda>k. rnd (Suc k)) s
      else Inr s)"

text \<open>The body of the loop over \<open>activeDipoleIndices\<close> at index \<open>i\<close>.\<close>

definition advanceDipole :: "real \<Rightarrow> nat \<Rightarrow> worker \<Rightarrow> js_error + worker" where
  "advanceDipole dt i s =
     (if i \<ge> length (activeDipoleIndices s) then Inl TypeError
      else
        (let actualIndex = activeDipoleIndices s ! i in
         if actualIndex \<ge> length (dipoles s) then Inl TypeError
         else
           (let d0 = dipoles s ! actualIndex;
                d1 = d0\<lparr>life := life d0 - dt * speed (params s)\<rparr>;
                s1 = s\<lparr>dipoles := (dipoles s)[actualIndex := d1]\<rparr> in
            if life d1 \<le> 0 then
              (case updateInstanceMatrix d1 0 s1 of
                 Inl e \<Rightarrow> Inl e
               | Inr s2 \<Rightarrow>
                   Inr (s2\<lparr>instanceIndices := instanceIndices s2 @ [instanceIndex d1],
                           activeDipoleIndices := take i (activeDipoleIndices s2) @
                                                  drop (Suc i) (activeDipoleIndices s2),
                           dipoles := (dipoles s2)[actualIndex := d1\<lparr>life := 0\<rparr>]\<rparr>))
            else
              (let progress = (maxLife d1 - life d1) / maxLife d1;
                   scale = sin (progress * pi) * maxScale d1;
                   rotationAmount = dt * spinSpeed (params s1);
                   rotationDelta = Quat_setFromAxisAngle (axis d1) rotationAmount;
                   d2 = d1\<lparr>quaternion := Quat_multiply rotationDelta (quaternion d1)\<rparr>;
                   s2 = s1\<lparr>dipoles := (dipoles s1)[actualIndex := d2]\<rparr> in
               updateInstanceMatrix d2 scale s2))))"

text \<open>\<^verbatim>\<open>for (let i = n - 1; i >= 0; i--)\<close> with the counter
  \<open>updatedInstances\<close>: \<open>advanceLoop dt n\<close> runs the body at \<open>n - 1\<close>, ..., \<open>0\<close>.\<close>

fun advanceLoop :: "real \<Rightarrow> nat \<Rightarrow> worker \<times> nat \<Rightarrow> js_error + worker \<times> nat" where
  "advanceLoop dt 0 (s, updatedInstances) = Inr (s, updatedInstances)"
| "advanceLoop dt (Suc i) (s, updatedInstances) =
     (case advanceDipole dt i s of
        Inl e \<Rightarrow> Inl e
      | Inr s' \<Rightarrow> advanceLoop dt i (s', updatedInstances + 1))"

text \<open>The \<^verbatim>\<open>matricesUpdate\<close> post that transfers both buffers, followed by the
  allocation of the next pair. A transfer list that names one buffer twice is refused.\<close>

definition postMatrices :: "worker \<Rightarrow> js_error + worker" where
  "postMatrices s =
     (case (redMatricesBuffer s, blueMatricesBuffer s) of
        (Some r, Some b) \<Rightarrow>
          if r = b then Inl DataCloneError
          else
            (let s1 = s\<lparr>posted := posted s @ [(r, b)]\<rparr>;
                 (r', s2) = newArrayBuffer (maxDipoles s1 * 16 * 4) s1;
                 (b', s3) = newArrayBuffer (maxDipoles s2 * 16 * 4) s2 in
             Inr (s3\<lparr>redMatricesBuffer := Some r', blueMatricesBuffer := Some b'\<rparr>))
      | _ \<Rightarrow> Inl TypeError)"

text \<open>\<^verbatim>\<open>updateSimulation(timestamp)\<close>; \<open>rnd k\<close> is the \<open>k\<close>-th value
  \<^verbatim>\<open>Math.random()\<close> returns during the call. The call of
  \<^verbatim>\<open>requestAnimationFrame\<close> at its end is the arrival of a later \<open>Frame\<close>.\<close>

definition updateSimulation :: "real \<Rightarrow> (nat \<Rightarrow> real) \<Rightarrow> worker \<Rightarrow> js_error + worker" where
  "updateSimulation timestamp rnd s =
     (if \<not> simulationRunning s then Inr s
      else
        (let dt = deltaTime s timestamp;
             s0 = s\<lparr>lastTimestamp := timestamp\<rparr> in
         case spawnDecision dt rnd s0 of
           Inl e \<Rightarrow> Inl e
         | Inr s1 \<Rightarrow>
             (case advanceLoop dt (length (activeDipoleIndices s1)) (s1, 0) of
                Inl e \<Rightarrow> Inl e
              | Inr (s2, updatedInstances) \<Rightarrow>
                  if updatedInstances > 0 then postMatrices s2 else Inr s2)))"

subsection \<open>Message handling\<close>

text \<open>The fields of an \<^verbatim>\<open>updateParams\<close> message that are present.\<close>

record params_patch =
  p_dipoleLifetime :: "real option"
  p_speed :: "real option"
  p_creationProbability :: "real option"
  p_maxScaleBase :: "real option"
  p_scaleVariance :: "real option"
  p_spinSpeed :: "real option"

definition mergeParams :: "sim_params \<Rightarrow> params_patch \<Rightarrow> sim_params" where
  "mergeParams p q =
     \<lparr>dipoleLifetime = (case p_dipoleLifetime q of None \<Rightarrow> dipoleLifetime p | Some v \<Rightarrow> v),
      speed = (case p_speed q of None \<Rightarrow> speed p | Some v \<Rightarrow> v),
      creationProbability =
        (case p_creationProbability q of None \<Rightarrow> creationProbability p | Some v \<Rightarrow> v),
      maxScaleBase = (case p_maxScaleBase q of None \<Rightarrow> maxScaleBase p | Some v \<Rightarrow> v),
      scaleVariance = (case p_scaleVariance q of None \<Rightarrow> scaleVariance p | Some v \<Rightarrow> v),
      spinSpeed = (case p_spinSpeed q of None \<Rightarrow> spinSpeed p | Some v \<Rightarrow> v)\<rparr>"

text \<open>
  What the worker reacts to: the five message types, any other message, and the
  animation-frame callback. \<open>Start now\<close> carries the value of
  \<^verbatim>\<open>performance.now()\<close>; \<open>ReturnBuffers r b\<close> carries the blocks of the two
  buffers of the message; \<open>Frame timestamp rnd\<close> is one call of
  \<^verbatim>\<open>updateSimulation\<close>.
\<close>

datatype event =
    Init nat sim_params real
  | Start real
  | Stop
  | UpdateParams params_patch
  | ReturnBuffers nat nat
  | Unknown
  | Frame real "nat \<Rightarrow> real"

definition newDipole :: "nat \<Rightarrow> dipole" where
  "newDipole i = \<lparr>life = 0, maxLife = 0, maxScale = 0, axis = Vec3_create,
     instanceIndex = i, position = Vec3_create, quaternion = Quat_create\<rparr>"

definition onInit :: "nat \<Rightarrow> sim_params \<Rightarrow> real \<Rightarrow> worker \<Rightarrow> worker" where
  "onInit n ps off s =
     (let s1 = s\<lparr>maxDipoles := n, params := ps, lobeOffset := off,
                 dipoles := map newDipole [0..<n],
                 instanceIndices := [0..<n],
                 activeDipoleIndices := [],
                 matrixOffsetRed := Mat4_makeTranslation 0 off 0,
                 matrixOffsetBlue := Mat4_makeTranslation 0 (- off) 0\<rparr>;
          (r, s2) = newArrayBuffer (maxDipoles s1 * 16 * 4) s1;
          (b, s3) = newArrayBuffer (maxDipoles s2 * 16 * 4) s2;
          s4 = s3\<lparr>posted := posted s3 @ [(r, b)]\<rparr>;
          (r', s5) = newArrayBuffer (maxDipoles s4 * 16 * 4) s4;
          (b', s6) = newArrayBuffer (maxDipoles s5 * 16 * 4) s5 in
      s6\<lparr>redMatricesBuffer := Some r', blueMatricesBuffer := Some b'\<rparr>)"

text \<open>A block that arrives from the other side and was never allocated here is
  registered as in use, so that a later allocation cannot hand it out again.\<close>

definition onReturnBuffers :: "nat \<Rightarrow> nat \<Rightarrow> worker \<Rightarrow> worker" where
  "onReturnBuffers r b s =
     s\<lparr>redMatricesBuffer := Some r, blueMatricesBuffer := Some b,
       nextBuffer := max (nextBuffer s) (Suc (max r b))\<rparr>"

fun step :: "worker \<Rightarrow> event \<Rightarrow> js_error + worker" where
  "step s (Init n ps off) = Inr (onInit n ps off s)"
| "step s (Start now) =
     Inr (if \<not> simulationRunning s
          then s\<lparr>simulationRunning := True, lastTimestamp := now\<rparr> else s)"
| "step s Stop = Inr (s\<lparr>simulationRunning := False\<rparr>)"
| "step s (UpdateParams q) = Inr (s\<lparr>params := mergeParams (params s) q\<rparr>)"
| "step s (ReturnBuffers r b) = Inr (onReturnBuffers r b s)"
| "step s Unknown = Inr s"
| "step s (Frame timestamp rnd) = updateSimulation timestamp rnd s"

text \<open>A sequence of events; the first exception ends it.\<close>

fun run :: "worker \<Rightarrow> event list \<Rightarrow> js_error + worker" where
  "run s [] = Inr s"
| "run s (e # es) = (case step s e of Inl err \<Rightarrow> Inl err | Inr s' \<Rightarrow> run s' es)"

section \<open>Vocabulary of the properties\<close>

subsection \<open>The pool\<close>

text \<open>The structure of the pool that holds at every point of a tick: one dipole per
  slot, every slot index exactly once in the free list or the active list, and every
  dipole carrying the index of its own slot.\<close>

definition pool_struct :: "worker \<Rightarrow> bool" where
  "pool_struct s \<longleftrightarrow>
     length (dipoles s) = maxDipoles s \<and>
     distinct (instanceIndices s @ activeDipoleIndices s) \<and>
     set (instanceIndices s) \<union> set (activeDipoleIndices s) = {0..<maxDipoles s} \<and>
     (\<forall>i\<in>{0..<maxDipoles s}. instanceIndex (dipoles s ! i) = i)"

text \<open>The invariant of the loop of \<open>updateSimulation\<close> when the indices below \<open>k\<close>
  are still to be visited: free slots are dead, and the active slots already visited are
  alive.\<close>

definition loop_inv :: "nat \<Rightarrow> worker \<Rightarrow> bool" where
  "loop_inv k s \<longleftrightarrow>
     pool_struct s \<and>
     (\<forall>i\<in>set (instanceIndices s). life (dipoles s ! i) \<le> 0) \<and>
     (\<forall>j\<in>{k..<length (activeDipoleIndices s)}.
          0 < life (dipoles s ! (activeDipoleIndices s ! j)))"

text \<open>The invariant between two events.\<close>

definition pool_inv :: "worker \<Rightarrow> bool" where
  "pool_inv s \<longleftrightarrow>
     pool_struct s \<and>
     (\<forall>i\<in>{0..<maxDipoles s}.
        (0 < life (dipoles s ! i)) = (i \<in> set (activeDipoleIndices s)))"



subsection \<open>Matrices, buffers and ticks\<close>

text \<open>The matrix \<open>updateInstanceMatrix\<close> computes for one lobe: the base matrix of
  the dipole at a uniform scale, multiplied by the offset matrix of the lobe.\<close>

definition lobeMatrix :: "dipole \<Rightarrow> real \<Rightarrow> mat4 \<Rightarrow> mat4" where
  "lobeMatrix d scale offset =
     Mat4_multiply (Mat4_compose (position d) (quaternion d) (Vec3_set scale scale scale)) offset"




text \<open>The life progress of a dipole and the scale \<open>updateSimulation\<close> derives from a
  progress and a peak scale.\<close>

definition progress :: "dipole \<Rightarrow> real" where
  "progress d = (maxLife d - life d) / maxLife d"


text \<open>The test that guards the call of \<open>createDipole\<close> in the tick at \<open>ts\<close>.\<close>

definition spawnCondition :: "real \<Rightarrow> (nat \<Rightarrow> real) \<Rightarrow> worker \<Rightarrow> bool" where
  "spawnCondition ts rnd s \<longleftrightarrow>
     rnd 0 < creationProbability (params s) * deltaTime s ts \<and> instanceIndices s \<noteq> []"

text \<open>What the simulation code leaves alone: everything but the pool and the contents
  of the buffers.\<close>

definition sim_frame :: "worker \<Rightarrow> worker \<Rightarrow> bool" where
  "sim_frame s s' \<longleftrightarrow>
     params s' = params s \<and> maxDipoles s' = maxDipoles s \<and>
     redMatricesBuffer s' = redMatricesBuffer s \<and>
     blueMatricesBuffer s' = blueMatricesBuffer s \<and>
     matrixOffsetRed s' = matrixOffsetRed s \<and> matrixOffsetBlue s' = matrixOffsetBlue s \<and>
     nextBuffer s' = nextBuffer s \<and> posted s' = posted s \<and>
     lobeOffset s' = lobeOffset s \<and> lastTimestamp s' = lastTimestamp s \<and>
     simulationRunning s' = simulationRunning s"

text \<open>One iteration of the loop seen from the dipole: \<open>aged\<close> is the dipole handed to
  \<open>updateInstanceMatrix\<close>, \<open>agedScale\<close> the scale handed over with it, and
  \<open>settled\<close> the dipole the iteration leaves in the pool.\<close>

definition aged :: "real \<Rightarrow> sim_params \<Rightarrow> dipole \<Rightarrow> dipole" where
  "aged dt ps d =
     (let d1 = d\<lparr>life := life d - dt * speed ps\<rparr> in
      if life d1 \<le> 0 then d1
      else d1\<lparr>quaternion :=
                Quat_multiply (Quat_setFromAxisAngle (axis d1) (dt * spinSpeed ps))
                  (quaternion d1)\<rparr>)"

definition agedScale :: "dipole \<Rightarrow> real" where
  "agedScale d =
     (if life d \<le> 0 then 0
      else sin ((maxLife d - life d) / maxLife d * pi) * maxScale d)"

definition settled :: "dipole \<Rightarrow> dipole" where
  "settled d = (if life d \<le> 0 then d\<lparr>life := 0\<rparr> else d)"

text \<open>The blocks the worker writes to are blocks in use, and the offset matrices are
  the translations by the lobe offset; with the pool invariant, the invariant of the
  worker between two events.\<close>

definition own_inv :: "worker \<Rightarrow> bool" where
  "own_inv s \<longleftrightarrow>
     (case redMatricesBuffer s of None \<Rightarrow> True | Some k \<Rightarrow> k < nextBuffer s) \<and>
     (case blueMatricesBuffer s of None \<Rightarrow> True | Some k \<Rightarrow> k < nextBuffer s)"

definition offsets_inv :: "worker \<Rightarrow> bool" where
  "offsets_inv s \<longleftrightarrow>
     matrixOffsetRed s = Mat4_makeTranslation 0 (lobeOffset s) 0 \<and>
     matrixOffsetBlue s = Mat4_makeTranslation 0 (- lobeOffset s) 0"

definition worker_inv :: "worker \<Rightarrow> bool" where
  "worker_inv s \<longleftrightarrow> pool_inv s \<and> own_inv s \<and> offsets_inv s"

text \<open>The write buffers are two different blocks with room for every slot.\<close>

definition buffers_ok :: "worker \<Rightarrow> bool" where
  "buffers_ok s \<longleftrightarrow>
     (case (redMatricesBuffer s, blueMatricesBuffer s) of
        (Some r, Some b) \<Rightarrow>
          r \<noteq> b \<and> length (heap s r) = maxDipoles s * 16 \<and>
          length (heap s b) = maxDipoles s * 16
      | _ \<Rightarrow> False)"

text \<open>The event hands block \<open>k\<close> back to the worker.\<close>

fun returns :: "nat \<Rightarrow> event \<Rightarrow> bool" where
  "returns k (ReturnBuffers r b) = (k = r \<or> k = b)"
| "returns k _ = False"

subsection \<open>Concrete inputs\<close>

text \<open>The parameters the page sends with \<^verbatim>\<open>init\<close>, and sequences of draws of
  \<^verbatim>\<open>Math.random()\<close>: \<open>demo_draws\<close> is 0 first and 1/2 from then on,
  \<open>half_draws\<close> is 1/2 throughout, \<open>spread_draws\<close> is 1/2 except for one 0.\<close>

definition demo_params :: sim_params where
  "demo_params = \<lparr>dipoleLifetime = 4, speed = 1, creationProbability = 400,
     maxScaleBase = 1/2, scaleVariance = 4/5, spinSpeed = 1/2\<rparr>"

definition demo_draws :: "nat \<Rightarrow> real" where
  "demo_draws k = (if k = 0 then 0 else 1/2)"

definition half_draws :: "nat \<Rightarrow> real" where
  "half_draws k = 1/2"

definition spread_draws :: "nat \<Rightarrow> real" where
  "spread_draws k = (if k = 2 then 0 else 1/2)"

text \<open>Two slots, started, two ticks 16 ms apart: a dipole is spawned in each.\<close>

definition demo_events :: "event list" where
  "demo_events = [Start 1000, Frame 1016 demo_draws, Frame 1032 demo_draws]"

text \<open>Two slots, initialised and started, before the first tick.\<close>

definition demo_started :: worker where
  "demo_started = projr (run initial_worker [Init 2 demo_params (9/100), Start 1000])"

text \<open>One slot, one tick that spawns a dipole with four seconds to live.\<close>

definition spawn_events :: "event list" where
  "spawn_events = [Init 1 demo_params (9/100), Start 1000, Frame 1016 demo_draws]"

definition spawned_state :: worker where
  "spawned_state = projr (run initial_worker spawn_events)"

text \<open>The same, followed by a change of the speed to 1000: the next tick kills the
  dipole.\<close>

definition fast_patch :: params_patch where
  "fast_patch = \<lparr>p_dipoleLifetime = None, p_speed = Some 1000, p_creationProbability = None,
     p_maxScaleBase = None, p_scaleVariance = None, p_spinSpeed = None\<rparr>"

definition dying_events :: "event list" where
  "dying_events = [Init 1 demo_params (9/100), Start 1000, Frame 1016 demo_draws,
     UpdateParams fast_patch]"

definition dying_state :: worker where
  "dying_state = projr (run initial_worker dying_events)"

text \<open>A second \<^verbatim>\<open>init\<close> while the simulation runs.\<close>

definition reinit_events :: "event list" where
  "reinit_events = [Init 1 demo_params (9/100), Start 1000, Init 1 demo_params (9/100)]"

text \<open>The pair posted by \<^verbatim>\<open>init\<close> comes back before the first tick, which then
  spawns a dipole.\<close>

definition recycle_events :: "event list" where
  "recycle_events = [Init 1 demo_params (9/100), Start 1000, ReturnBuffers 0 1,
     Frame 1016 demo_draws]"

text \<open>The events that follow an \<^verbatim>\<open>init\<close> with one slot when nothing comes
  back: a start and a tick that spawns.\<close>

definition unreturned_events :: "event list" where
  "unreturned_events = [Start 1000, Frame 1016 demo_draws]"

section \<open>Proofs\<close>

subsection \<open>The pool invariant\<close>

text \<open>Writing a matrix changes the heap only; \<open>createDipole\<close> and one iteration of
  the loop move one index between the lists; the loop invariant is kept by every
  iteration, and the pool invariant by every event.\<close>

lemma Float32Array_set_heap_only:
  "Float32Array_set v m off s = Inr s' \<Longrightarrow> \<exists>h. s' = s\<lparr>heap := h\<rparr>"
  by (auto simp: Float32Array_set_def split: option.splits if_splits)

lemma updateInstanceMatrix_heap_only:
  "updateInstanceMatrix d sc s = Inr s' \<Longrightarrow> \<exists>h. s' = s\<lparr>heap := h\<rparr>"
  unfolding updateInstanceMatrix_def Let_def
  by (auto split: sum.splits dest!: Float32Array_set_heap_only)

lemma createDipole_pool:
  assumes "createDipole r s = Inr s'" "instanceIndices s \<noteq> []"
  shows "instanceIndices s' = butlast (instanceIndices s)"
    and "activeDipoleIndices s' = activeDipoleIndices s @ [last (instanceIndices s)]"
    and "last (instanceIndices s) < length (dipoles s)"
    and "maxDipoles s' = maxDipoles s"
    and "length (dipoles s') = length (dipoles s)"
    and "\<And>i. i \<noteq> last (instanceIndices s) \<Longrightarrow> dipoles s' ! i = dipoles s ! i"
    and "instanceIndex (dipoles s' ! last (instanceIndices s)) = last (instanceIndices s)"
  using assms unfolding createDipole_def Let_def
  by (auto split: if_splits dest!: updateInstanceMatrix_heap_only)

lemma advanceDipole_cases:
  assumes "advanceDipole dt i s = Inr s'"
  obtains (dead) "i < length (activeDipoleIndices s)"
      "activeDipoleIndices s ! i < length (dipoles s)"
      "life (dipoles s ! (activeDipoleIndices s ! i)) - dt * speed (params s) \<le> 0"
      "instanceIndices s' = instanceIndices s @ [instanceIndex (dipoles s ! (activeDipoleIndices s ! i))]"
      "activeDipoleIndices s' = take i (activeDipoleIndices s) @ drop (Suc i) (activeDipoleIndices s)"
      "dipoles s' = (dipoles s)[activeDipoleIndices s ! i := (dipoles s ! (activeDipoleIndices s ! i))\<lparr>life := 0\<rparr>]"
      "maxDipoles s' = maxDipoles s"
  | (alive) "i < length (activeDipoleIndices s)"
      "activeDipoleIndices s ! i < length (dipoles s)"
      "0 < life (dipoles s ! (activeDipoleIndices s ! i)) - dt * speed (params s)"
      "instanceIndices s' = instanceIndices s"
      "activeDipoleIndices s' = activeDipoleIndices s"
      "dipoles s' = (dipoles s)[activeDipoleIndices s ! i := (dipoles s ! (activeDipoleIndices s ! i))
          \<lparr>life := life (dipoles s ! (activeDipoleIndices s ! i)) - dt * speed (params s),
           quaternion := Quat_multiply (Quat_setFromAxisAngle (axis (dipoles s ! (activeDipoleIndices s ! i))) (dt * spinSpeed (params s)))
              (quaternion (dipoles s ! (activeDipoleIndices s ! i)))\<rparr>]"
      "maxDipoles s' = maxDipoles s"
proof (cases "life (dipoles s ! (activeDipoleIndices s ! i)) - dt * speed (params s) \<le> 0")
  case True
  with assms show ?thesis
    unfolding advanceDipole_def Let_def
    by (intro dead) (auto split: if_splits sum.splits dest!: updateInstanceMatrix_heap_only)
next
  case False
  with assms show ?thesis
    unfolding advanceDipole_def Let_def
    by (intro alive) (auto split: if_splits sum.splits dest!: updateInstanceMatrix_heap_only)
qed

lemma remove_nth_props:
  assumes "distinct xs" "i < length xs"
  shows "distinct (take i xs @ drop (Suc i) xs)"
    and "set (take i xs @ drop (Suc i) xs) = set xs - {xs ! i}"
    and "\<And>j. i \<le> j \<Longrightarrow> Suc j < length xs \<Longrightarrow> (take i xs @ drop (Suc i) xs) ! j = xs ! Suc j"
    and "\<And>j. j < i \<Longrightarrow> (take i xs @ drop (Suc i) xs) ! j = xs ! j"
    and "length (take i xs @ drop (Suc i) xs) = length xs - 1"
proof -
  have xs: "xs = take i xs @ xs ! i # drop (Suc i) xs"
    using assms(2) by (rule id_take_nth_drop)
  have d: "distinct (take i xs @ xs ! i # drop (Suc i) xs)"
    using assms(1) xs by simp
  from d show "distinct (take i xs @ drop (Suc i) xs)" by simp
  have "set xs = set (take i xs @ xs ! i # drop (Suc i) xs)" using xs by simp
  with d show "set (take i xs @ drop (Suc i) xs) = set xs - {xs ! i}" by auto
  show "\<And>j. i \<le> j \<Longrightarrow> Suc j < length xs \<Longrightarrow> (take i xs @ drop (Suc i) xs) ! j = xs ! Suc j"
    using assms(2) by (simp add: nth_append min_def)
  show "\<And>j. j < i \<Longrightarrow> (take i xs @ drop (Suc i) xs) ! j = xs ! j"
    using assms(2) by (simp add: nth_append)
  show "length (take i xs @ drop (Suc i) xs) = length xs - 1"
    using assms(2) by simp
qed

lemma advanceDipole_inv:
  assumes inv: "loop_inv (Suc i) s" and step: "advanceDipole dt i s = Inr s'"
  shows "loop_inv i s'"
proof -
  let ?act = "activeDipoleIndices s"
  let ?a = "?act ! i"
  from inv have st: "pool_struct s"
    and fr: "\<forall>k\<in>set (instanceIndices s). life (dipoles s ! k) \<le> 0"
    and al: "\<forall>j\<in>{Suc i..<length ?act}. 0 < life (dipoles s ! (?act ! j))"
    by (auto simp: loop_inv_def)
  from st have len: "length (dipoles s) = maxDipoles s"
    and dist: "distinct (instanceIndices s @ ?act)"
    and un: "set (instanceIndices s) \<union> set ?act = {0..<maxDipoles s}"
    and idx: "\<forall>k\<in>{0..<maxDipoles s}. instanceIndex (dipoles s ! k) = k"
    by (auto simp: pool_struct_def)
  from step show ?thesis
  proof (cases rule: advanceDipole_cases)
    case dead
    have a_in: "?a \<in> set ?act" using dead(1) by simp
    have a_lt: "?a < maxDipoles s" using dead(2) len by simp
    have ii: "instanceIndex (dipoles s ! ?a) = ?a" using idx a_lt by simp
    have dact: "distinct ?act" using dist by simp
    note rm = remove_nth_props[OF dact dead(1)]
    have a_notfree: "?a \<notin> set (instanceIndices s)" using dist a_in by auto
    have "pool_struct s'"
      unfolding pool_struct_def
      using dead(4-7) ii rm(1,2) len dist un idx a_in a_notfree a_lt
      by (auto simp: nth_list_update)
    moreover have "\<forall>k\<in>set (instanceIndices s'). life (dipoles s' ! k) \<le> 0"
      using dead(4,6) ii fr dead(2) by (auto simp: nth_list_update)
    moreover have "\<forall>j. i \<le> j \<and> j < length (activeDipoleIndices s') \<longrightarrow>
          0 < life (dipoles s' ! (activeDipoleIndices s' ! j))"
    proof (intro allI impI)
      fix j assume j: "i \<le> j \<and> j < length (activeDipoleIndices s')"
      then have "j < length ?act - 1" using dead(5) rm(5) by simp
      then have sj: "Suc j < length ?act" by arith
      have e: "activeDipoleIndices s' ! j = ?act ! Suc j"
        using dead(5) rm(3) j sj by simp
      have ne: "?act ! Suc j \<noteq> ?a"
        using dact sj dead(1) j by (auto simp: distinct_conv_nth)
      show "0 < life (dipoles s' ! (activeDipoleIndices s' ! j))"
        using e ne al sj j dead(6) by (simp add: nth_list_update)
    qed
    ultimately show ?thesis by (simp add: loop_inv_def)
  next
    case alive
    have a_in: "?a \<in> set ?act" using alive(1) by simp
    have a_lt: "?a < maxDipoles s" using alive(2) len by simp
    have ii: "instanceIndex (dipoles s ! ?a) = ?a" using idx a_lt by simp
    have dact: "distinct ?act" using dist by simp
    have a_notfree: "?a \<notin> set (instanceIndices s)" using dist a_in by auto
    have "pool_struct s'"
      unfolding pool_struct_def
      using alive(4-7) ii len dist un idx a_lt
      by (auto simp: nth_list_update)
    moreover have "\<forall>k\<in>set (instanceIndices s'). life (dipoles s' ! k) \<le> 0"
    proof
      fix k assume "k \<in> set (instanceIndices s')"
      then have k: "k \<in> set (instanceIndices s)" using alive(4) by simp
      then have "?a \<noteq> k" using a_notfree by auto
      then have "dipoles s' ! k = dipoles s ! k" using alive(6) by simp
      then show "life (dipoles s' ! k) \<le> 0" using fr k by simp
    qed
    moreover have "\<forall>j. i \<le> j \<and> j < length (activeDipoleIndices s') \<longrightarrow>
          0 < life (dipoles s' ! (activeDipoleIndices s' ! j))"
    proof (intro allI impI)
      fix j assume j: "i \<le> j \<and> j < length (activeDipoleIndices s')"
      show "0 < life (dipoles s' ! (activeDipoleIndices s' ! j))"
      proof (cases "j = i")
        case True
        then show ?thesis using alive(2,3,5,6) by simp
      next
        case False
        then have "Suc i \<le> j" using j by simp
        then show ?thesis using al j alive(2,3,5,6) by (auto simp: nth_list_update)
      qed
    qed
    ultimately show ?thesis by (simp add: loop_inv_def)
  qed
qed

lemma advanceDipole_length:
  assumes "advanceDipole dt i s = Inr s'"
  shows "i \<le> length (activeDipoleIndices s')" "maxDipoles s' = maxDipoles s"
  using assms by (cases rule: advanceDipole_cases; simp)+

lemma advanceLoop_inv:
  "loop_inv k s \<Longrightarrow> advanceLoop dt k (s, n) = Inr (s', n') \<Longrightarrow>
     loop_inv 0 s' \<and> maxDipoles s' = maxDipoles s \<and> n' = n + k"
proof (induction k arbitrary: s n)
  case 0
  then show ?case by simp
next
  case (Suc k)
  from Suc.prems(2) obtain s1 where s1: "advanceDipole dt k s = Inr s1"
    and rest: "advanceLoop dt k (s1, n + 1) = Inr (s', n')"
    by (auto split: sum.splits)
  from advanceDipole_inv[OF Suc.prems(1) s1] have "loop_inv k s1" .
  from Suc.IH[OF this rest] advanceDipole_length(2)[OF s1] show ?case by simp
qed

lemma pool_inv_iff_loop_inv: "pool_inv s \<longleftrightarrow> loop_inv 0 s"
proof
  assume p: "pool_inv s"
  then have st: "pool_struct s" by (simp add: pool_inv_def)
  have "\<forall>i\<in>set (instanceIndices s). life (dipoles s ! i) \<le> 0"
  proof
    fix i assume i: "i \<in> set (instanceIndices s)"
    with st have "i < maxDipoles s" "i \<notin> set (activeDipoleIndices s)"
      by (auto simp: pool_struct_def)
    with p show "life (dipoles s ! i) \<le> 0" by (auto simp: pool_inv_def)
  qed
  moreover have "\<forall>j. 0 \<le> j \<and> j < length (activeDipoleIndices s) \<longrightarrow>
      0 < life (dipoles s ! (activeDipoleIndices s ! j))"
  proof (intro allI impI)
    fix j assume j: "0 \<le> j \<and> j < length (activeDipoleIndices s)"
    then have m: "activeDipoleIndices s ! j \<in> set (activeDipoleIndices s)" by simp
    with st have "activeDipoleIndices s ! j < maxDipoles s"
      by (auto simp: pool_struct_def)
    with p m show "0 < life (dipoles s ! (activeDipoleIndices s ! j))"
      by (auto simp: pool_inv_def)
  qed
  ultimately show "loop_inv 0 s" using st by (simp add: loop_inv_def)
next
  assume l: "loop_inv 0 s"
  then have st: "pool_struct s" by (simp add: loop_inv_def)
  have "\<forall>i<maxDipoles s. (0 < life (dipoles s ! i)) = (i \<in> set (activeDipoleIndices s))"
  proof (intro allI impI)
    fix i assume i: "i < maxDipoles s"
    show "(0 < life (dipoles s ! i)) = (i \<in> set (activeDipoleIndices s))"
    proof (cases "i \<in> set (activeDipoleIndices s)")
      case True
      then obtain j where "j < length (activeDipoleIndices s)" "activeDipoleIndices s ! j = i"
        by (auto simp: in_set_conv_nth)
      with l True show ?thesis by (auto simp: loop_inv_def)
    next
      case False
      with st i have "i \<in> set (instanceIndices s)" by (auto simp: pool_struct_def)
      with l False show ?thesis by (auto simp: loop_inv_def)
    qed
  qed
  with st show "pool_inv s" by (simp add: pool_inv_def)
qed

lemma loop_inv_cong:
  "dipoles s' = dipoles s \<Longrightarrow> instanceIndices s' = instanceIndices s \<Longrightarrow>
   activeDipoleIndices s' = activeDipoleIndices s \<Longrightarrow> maxDipoles s' = maxDipoles s \<Longrightarrow>
   loop_inv k s' = loop_inv k s"
  by (simp add: loop_inv_def pool_struct_def)

lemma createDipole_inv:
  assumes inv: "loop_inv 0 s" and c: "createDipole r s = Inr s'"
  shows "loop_inv (length (activeDipoleIndices s')) s'"
proof (cases "instanceIndices s = []")
  case True
  with c have "s' = s" by (simp add: createDipole_def)
  with inv show ?thesis by (simp add: loop_inv_def)
next
  case False
  note cp = createDipole_pool[OF c False]
  let ?x = "last (instanceIndices s)"
  from inv have st: "pool_struct s"
    and fr: "\<forall>k\<in>set (instanceIndices s). life (dipoles s ! k) \<le> 0"
    by (auto simp: loop_inv_def)
  have fsplit: "instanceIndices s = butlast (instanceIndices s) @ [?x]"
    using False by simp
  from st have dist: "distinct (instanceIndices s @ activeDipoleIndices s)"
    and un: "set (instanceIndices s) \<union> set (activeDipoleIndices s) = {0..<maxDipoles s}"
    and len: "length (dipoles s) = maxDipoles s"
    and idx: "\<forall>k\<in>{0..<maxDipoles s}. instanceIndex (dipoles s ! k) = k"
    by (auto simp: pool_struct_def)
  have d2: "distinct (butlast (instanceIndices s) @ [?x] @ activeDipoleIndices s)"
    using dist fsplit by (metis append.assoc)
  have s2: "set (butlast (instanceIndices s)) \<union> {?x} \<union> set (activeDipoleIndices s) = {0..<maxDipoles s}"
    using un fsplit by (metis Un_insert_right append_Nil2 list.simps(15) set_append sup_bot.right_neutral)
  have x_notin: "?x \<notin> set (butlast (instanceIndices s))" using d2 by simp
  have "pool_struct s'"
    unfolding pool_struct_def
  proof (intro conjI ballI)
    show "length (dipoles s') = maxDipoles s'" using cp(4,5) len by simp
    show "distinct (instanceIndices s' @ activeDipoleIndices s')"
      using cp(1,2) d2 by auto
    show "set (instanceIndices s') \<union> set (activeDipoleIndices s') = {0..<maxDipoles s'}"
      using cp(1,2,4) s2 by auto
    fix i assume "i \<in> {0..<maxDipoles s'}"
    then show "instanceIndex (dipoles s' ! i) = i"
      using cp(4,6,7) idx by (cases "i = ?x") auto
  qed
  moreover have "\<forall>k\<in>set (instanceIndices s'). life (dipoles s' ! k) \<le> 0"
  proof
    fix k assume "k \<in> set (instanceIndices s')"
    then have k: "k \<in> set (butlast (instanceIndices s))" using cp(1) by simp
    then have "k \<noteq> ?x" using x_notin by auto
    moreover have "k \<in> set (instanceIndices s)" using k by (rule in_set_butlastD)
    ultimately show "life (dipoles s' ! k) \<le> 0" using cp(6) fr by simp
  qed
  ultimately show ?thesis by (simp add: loop_inv_def)
qed

lemma spawnDecision_inv:
  "loop_inv 0 s \<Longrightarrow> spawnDecision dt rnd s = Inr s' \<Longrightarrow>
     loop_inv (length (activeDipoleIndices s')) s'"
proof -
  assume inv: "loop_inv 0 s" and sp: "spawnDecision dt rnd s = Inr s'"
  show ?thesis
  proof (cases "rnd 0 < creationProbability (params s) * dt \<and> length (instanceIndices s) > 0")
    case True
    with sp have "createDipole (\<lambda>k. rnd (Suc k)) s = Inr s'"
      by (simp add: spawnDecision_def)
    with inv show ?thesis by (rule createDipole_inv)
  next
    case False
    with sp have "s' = s" by (auto simp: spawnDecision_def)
    with inv show ?thesis by (simp add: loop_inv_def)
  qed
qed

lemma spawnDecision_maxDipoles:
  "spawnDecision dt rnd s = Inr s' \<Longrightarrow> maxDipoles s' = maxDipoles s"
  unfolding spawnDecision_def Let_def createDipole_def
  by (auto split: if_splits dest!: updateInstanceMatrix_heap_only)

lemma postMatrices_pool:
  assumes "postMatrices s = Inr s'"
  shows "dipoles s' = dipoles s" "instanceIndices s' = instanceIndices s"
    "activeDipoleIndices s' = activeDipoleIndices s" "maxDipoles s' = maxDipoles s"
  using assms unfolding postMatrices_def newArrayBuffer_def Let_def
  by (auto split: option.splits if_splits prod.splits)

lemma updateSimulation_pool_inv:
  assumes inv: "pool_inv s" and u: "updateSimulation ts rnd s = Inr s'"
  shows "pool_inv s' \<and> maxDipoles s' = maxDipoles s"
proof (cases "simulationRunning s")
  case False
  with u inv show ?thesis by (simp add: updateSimulation_def)
next
  case True
  let ?s0 = "s\<lparr>lastTimestamp := ts\<rparr>"
  let ?dt = "deltaTime s ts"
  from u True obtain s1 s2 n where
    sp: "spawnDecision ?dt rnd ?s0 = Inr s1" and
    lp: "advanceLoop ?dt (length (activeDipoleIndices s1)) (s1, 0) = Inr (s2, n)" and
    fin: "(if n > 0 then postMatrices s2 else Inr s2) = Inr s'"
    unfolding updateSimulation_def Let_def
    by (auto split: sum.splits prod.splits)
  have "loop_inv 0 ?s0"
    using inv by (simp add: pool_inv_iff_loop_inv loop_inv_def pool_struct_def)
  from spawnDecision_inv[OF this sp]
  have "loop_inv (length (activeDipoleIndices s1)) s1" .
  from advanceLoop_inv[OF this lp]
  have l2: "loop_inv 0 s2" and m2: "maxDipoles s2 = maxDipoles s1" by auto
  have m1: "maxDipoles s1 = maxDipoles s"
    using spawnDecision_maxDipoles[OF sp] by simp
  show ?thesis
  proof (cases "n > 0")
    case False
    with fin have "s' = s2" by simp
    with l2 m1 m2 show ?thesis by (simp add: pool_inv_iff_loop_inv)
  next
    case True
    with fin have "postMatrices s2 = Inr s'" by simp
    note pp = postMatrices_pool[OF this]
    have "loop_inv 0 s' = loop_inv 0 s2" using pp by (rule loop_inv_cong)
    with l2 m1 m2 pp(4) show ?thesis by (simp add: pool_inv_iff_loop_inv)
  qed
qed

lemma onInit_pool:
  "dipoles (onInit n ps off s) = map newDipole [0..<n]"
  "instanceIndices (onInit n ps off s) = [0..<n]"
  "activeDipoleIndices (onInit n ps off s) = []"
  "maxDipoles (onInit n ps off s) = n"
  by (simp_all add: onInit_def newArrayBuffer_def Let_def)

lemma onInit_pool_inv: "pool_inv (onInit n ps off s)"
  by (simp add: pool_inv_def pool_struct_def onInit_pool newDipole_def)




subsection \<open>Buffers and the effect of a tick\<close>

text \<open>A store of sixteen floats at slot \<open>i\<close> changes that slot of that block and
  nothing else. On top of it: what \<open>updateInstanceMatrix\<close>, one iteration, the whole
  loop, \<open>createDipole\<close>, the post and a whole tick do to the pool and to the buffers;
  and the invariant of the worker along a sequence of events.\<close>

lemma own_inv_iff:
  "own_inv s \<longleftrightarrow>
     (\<forall>k. redMatricesBuffer s = Some k \<or> blueMatricesBuffer s = Some k \<longrightarrow> k < nextBuffer s)"
  by (auto simp: own_inv_def split: option.splits)

lemma sim_frame_refl: "sim_frame s s"
  by (simp add: sim_frame_def)

lemma sim_frame_trans: "sim_frame s s1 \<Longrightarrow> sim_frame s1 s2 \<Longrightarrow> sim_frame s s2"
  by (simp add: sim_frame_def)

lemma length_Mat4_multiply [simp]: "length (Mat4_multiply a b) = 16"
  by (simp add: Mat4_multiply_def Mat4_column_def)

lemma length_lobeMatrix [simp]: "length (lobeMatrix d sc off) = 16"
  by (simp add: lobeMatrix_def)

lemma slot_write_same:
  assumes "i * 16 + 16 \<le> length h" "length m = 16"
  shows "take 16 (drop (i * 16) (take (i * 16) h @ m @ drop (i * 16 + 16) h)) = m"
  using assms by simp

lemma slot_write_other:
  assumes "j \<noteq> i" "i * 16 + 16 \<le> length h" "length m = 16"
  shows "take 16 (drop (j * 16) (take (i * 16) h @ m @ drop (i * 16 + 16) h)) =
         take 16 (drop (j * 16) h)"
proof (cases "j < i")
  case True
  then have le: "j * 16 + 16 \<le> i * 16" by simp
  then have "drop (j * 16) (take (i * 16) h @ m @ drop (i * 16 + 16) h) =
      drop (j * 16) (take (i * 16) h) @ m @ drop (i * 16 + 16) h"
    using assms(2) by simp
  moreover have "16 \<le> length (drop (j * 16) (take (i * 16) h))"
    using le assms(2) by simp
  ultimately have "take 16 (drop (j * 16) (take (i * 16) h @ m @ drop (i * 16 + 16) h)) =
      take 16 (drop (j * 16) (take (i * 16) h))"
    by simp
  also have "\<dots> = take 16 (take (i * 16 - j * 16) (drop (j * 16) h))"
    by (simp add: drop_take)
  also have "\<dots> = take 16 (drop (j * 16) h)"
    using le by (simp add: min_def)
  finally show ?thesis .
next
  case False
  with assms(1) have gt: "i * 16 + 16 \<le> j * 16" by simp
  have "drop (j * 16) (take (i * 16) h @ m @ drop (i * 16 + 16) h) =
      drop (j * 16 - i * 16 - 16) (drop (i * 16 + 16) h)"
    using gt assms(2,3) by simp
  also have "\<dots> = drop (j * 16) h"
    using gt by simp
  finally show ?thesis by simp
qed

lemma Float32Array_set_Some:
  assumes "Float32Array_set (Some k) m off s = Inr s'"
  shows "s' = s\<lparr>heap := (heap s)(k := take off (heap s k) @ m @ drop (off + length m) (heap s k))\<rparr>"
    and "off + length m \<le> length (heap s k)"
  using assms by (auto simp: Float32Array_set_def split: if_splits)

lemma Float32Array_set_slot:
  assumes "Float32Array_set (Some k) m (i * 16) s = Inr s'" "length m = 16"
  shows "slot s' k i = m"
    and "\<And>j. j \<noteq> i \<Longrightarrow> slot s' k j = slot s k j"
    and "\<And>k' j. k' \<noteq> k \<Longrightarrow> slot s' k' j = slot s k' j"
    and "\<And>k'. k' \<noteq> k \<Longrightarrow> heap s' k' = heap s k'"
    and "\<And>k'. length (heap s' k') = length (heap s k')"
proof -
  note f = Float32Array_set_Some[OF assms(1)]
  from f(2) assms(2) have fit: "i * 16 + 16 \<le> length (heap s k)" by simp
  show "slot s' k i = m"
    using f(1) assms(2) slot_write_same[OF fit assms(2)] by (simp add: slot_def)
  show "\<And>j. j \<noteq> i \<Longrightarrow> slot s' k j = slot s k j"
    using f(1) assms(2) slot_write_other[OF _ fit assms(2)] by (simp add: slot_def)
  show "\<And>k' j. k' \<noteq> k \<Longrightarrow> slot s' k' j = slot s k' j"
    using f(1) by (simp add: slot_def)
  show "\<And>k'. k' \<noteq> k \<Longrightarrow> heap s' k' = heap s k'"
    using f(1) by simp
  show "\<And>k'. length (heap s' k') = length (heap s k')"
    using f(1) fit assms(2) by simp
qed

lemma updateInstanceMatrix_effect:
  assumes u: "updateInstanceMatrix d sc s = Inr s'"
  obtains r b where "redMatricesBuffer s = Some r" "blueMatricesBuffer s = Some b"
    "sim_frame s s'" "dipoles s' = dipoles s" "instanceIndices s' = instanceIndices s"
    "activeDipoleIndices s' = activeDipoleIndices s"
    "slot s' b (instanceIndex d) = lobeMatrix d sc (matrixOffsetBlue s)"
    "r \<noteq> b \<Longrightarrow> slot s' r (instanceIndex d) = lobeMatrix d sc (matrixOffsetRed s)"
    "\<And>k j. j \<noteq> instanceIndex d \<Longrightarrow> slot s' k j = slot s k j"
    "\<And>k. k \<noteq> r \<Longrightarrow> k \<noteq> b \<Longrightarrow> heap s' k = heap s k"
    "\<And>k. length (heap s' k) = length (heap s k)"
proof -
  let ?i = "instanceIndex d"
  from u obtain s1 where
    w1: "Float32Array_set (redMatricesBuffer s) (lobeMatrix d sc (matrixOffsetRed s)) (?i * 16) s = Inr s1"
    and w2: "Float32Array_set (blueMatricesBuffer s1) (lobeMatrix d sc (matrixOffsetBlue s1)) (?i * 16) s1 = Inr s'"
    unfolding updateInstanceMatrix_def Let_def lobeMatrix_def
    by (auto split: sum.splits)
  from w1 obtain r where r: "redMatricesBuffer s = Some r"
    by (cases "redMatricesBuffer s") (auto simp: Float32Array_set_def)
  from w2 obtain b where b1: "blueMatricesBuffer s1 = Some b"
    by (cases "blueMatricesBuffer s1") (auto simp: Float32Array_set_def)
  from Float32Array_set_heap_only[OF w1]
  have e1: "blueMatricesBuffer s1 = blueMatricesBuffer s" "matrixOffsetBlue s1 = matrixOffsetBlue s"
    by auto
  from updateInstanceMatrix_heap_only[OF u]
  have e: "sim_frame s s'" "dipoles s' = dipoles s" "instanceIndices s' = instanceIndices s"
    "activeDipoleIndices s' = activeDipoleIndices s"
    by (auto simp: sim_frame_def)
  note sl1 = Float32Array_set_slot[OF w1[unfolded r] length_lobeMatrix]
  note sl2 = Float32Array_set_slot[OF w2[unfolded b1] length_lobeMatrix]
  show ?thesis
  proof (rule that[of r b])
    show "redMatricesBuffer s = Some r" by (rule r)
    show "blueMatricesBuffer s = Some b" using b1 e1 by simp
    show "sim_frame s s'" "dipoles s' = dipoles s" "instanceIndices s' = instanceIndices s"
      "activeDipoleIndices s' = activeDipoleIndices s" by (rule e)+
    show "slot s' b ?i = lobeMatrix d sc (matrixOffsetBlue s)" using sl2(1) e1 by simp
    show "r \<noteq> b \<Longrightarrow> slot s' r ?i = lobeMatrix d sc (matrixOffsetRed s)"
      using sl2(3)[of r ?i] sl1(1) by simp
    show "\<And>k j. j \<noteq> ?i \<Longrightarrow> slot s' k j = slot s k j"
    proof -
      fix k j assume j: "j \<noteq> ?i"
      have "slot s' k j = slot s1 k j" using sl2(2)[OF j] sl2(3)[of k j] by (cases "k = b") auto
      also have "\<dots> = slot s k j" using sl1(2)[OF j] sl1(3)[of k j] by (cases "k = r") auto
      finally show "slot s' k j = slot s k j" .
    qed
    show "\<And>k. k \<noteq> r \<Longrightarrow> k \<noteq> b \<Longrightarrow> heap s' k = heap s k"
      using sl1(4) sl2(4) by simp
    show "\<And>k. length (heap s' k) = length (heap s k)"
      using sl1(5) sl2(5) by simp
  qed
qed

lemma advanceDipole_effect:
  assumes adv: "advanceDipole dt i s = Inr s'"
  defines "a \<equiv> activeDipoleIndices s ! i"
  defines "d \<equiv> aged dt (params s) (dipoles s ! a)"
  obtains r b where "redMatricesBuffer s = Some r" "blueMatricesBuffer s = Some b"
    "i < length (activeDipoleIndices s)" "a < length (dipoles s)"
    "sim_frame s s'"
    "dipoles s' = (dipoles s)[a := settled d]"
    "instanceIndices s' =
       (if life d \<le> 0 then instanceIndices s @ [instanceIndex d] else instanceIndices s)"
    "activeDipoleIndices s' =
       (if life d \<le> 0 then take i (activeDipoleIndices s) @ drop (Suc i) (activeDipoleIndices s)
        else activeDipoleIndices s)"
    "slot s' b (instanceIndex d) = lobeMatrix d (agedScale d) (matrixOffsetBlue s)"
    "r \<noteq> b \<Longrightarrow> slot s' r (instanceIndex d) = lobeMatrix d (agedScale d) (matrixOffsetRed s)"
    "\<And>k j. j \<noteq> instanceIndex d \<Longrightarrow> slot s' k j = slot s k j"
    "\<And>k. k \<noteq> r \<Longrightarrow> k \<noteq> b \<Longrightarrow> heap s' k = heap s k"
    "\<And>k. length (heap s' k) = length (heap s k)"
proof -
  from adv have i: "i < length (activeDipoleIndices s)" and a: "a < length (dipoles s)"
    unfolding advanceDipole_def a_def Let_def by (auto split: if_splits)
  let ?s1 = "s\<lparr>dipoles := (dipoles s)[a := (dipoles s ! a)\<lparr>life := life (dipoles s ! a) - dt * speed (params s)\<rparr>]\<rparr>"
  let ?s2 = "s\<lparr>dipoles := (dipoles s)[a := d]\<rparr>"
  show ?thesis
  proof (cases "life d \<le> 0")
    case True
    then have dl: "life (dipoles s ! a) - dt * speed (params s) \<le> 0"
      and dd: "d = (dipoles s ! a)\<lparr>life := life (dipoles s ! a) - dt * speed (params s)\<rparr>"
      unfolding d_def aged_def Let_def by (auto split: if_splits)
    from adv i a dl obtain s2 where
      u: "updateInstanceMatrix d 0 ?s2 = Inr s2" and
      s': "s' = s2\<lparr>instanceIndices := instanceIndices s2 @ [instanceIndex d],
                    activeDipoleIndices := take i (activeDipoleIndices s2) @
                                           drop (Suc i) (activeDipoleIndices s2),
                    dipoles := (dipoles s2)[a := d\<lparr>life := 0\<rparr>]\<rparr>"
      unfolding advanceDipole_def Let_def a_def[symmetric] dd[symmetric]
      by (auto split: if_splits sum.splits simp: dd)
    from u show ?thesis
    proof (rule updateInstanceMatrix_effect)
      fix r b
      assume r: "redMatricesBuffer ?s2 = Some r" and b: "blueMatricesBuffer ?s2 = Some b"
        and fr: "sim_frame ?s2 s2"
        and e: "dipoles s2 = dipoles ?s2" "instanceIndices s2 = instanceIndices ?s2"
          "activeDipoleIndices s2 = activeDipoleIndices ?s2"
        and sb: "slot s2 b (instanceIndex d) = lobeMatrix d 0 (matrixOffsetBlue ?s2)"
        and sr: "r \<noteq> b \<Longrightarrow> slot s2 r (instanceIndex d) = lobeMatrix d 0 (matrixOffsetRed ?s2)"
        and so: "\<And>k j. j \<noteq> instanceIndex d \<Longrightarrow> slot s2 k j = slot ?s2 k j"
        and ho: "\<And>k. k \<noteq> r \<Longrightarrow> k \<noteq> b \<Longrightarrow> heap s2 k = heap ?s2 k"
        and hl: "\<And>k. length (heap s2 k) = length (heap ?s2 k)"
      have hs: "heap s' = heap s2" using s' by simp
      have sl: "\<And>k j. slot s' k j = slot s2 k j" using hs by (simp add: slot_def)
      show ?thesis
      proof (rule that[of r b])
        show "redMatricesBuffer s = Some r" using r by simp
        show "blueMatricesBuffer s = Some b" using b by simp
        show "i < length (activeDipoleIndices s)" by (rule i)
        show "a < length (dipoles s)" by (rule a)
        show "sim_frame s s'" using fr by (simp add: sim_frame_def s')
        show "dipoles s' = (dipoles s)[a := settled d]"
          using True e by (simp add: settled_def s')
        show "instanceIndices s' =
          (if life d \<le> 0 then instanceIndices s @ [instanceIndex d] else instanceIndices s)"
          using True e by (simp add: s')
        show "activeDipoleIndices s' =
          (if life d \<le> 0 then take i (activeDipoleIndices s) @ drop (Suc i) (activeDipoleIndices s)
           else activeDipoleIndices s)"
          using True e by (simp add: s')
        show "slot s' b (instanceIndex d) = lobeMatrix d (agedScale d) (matrixOffsetBlue s)"
          using sb sl True by (simp add: agedScale_def)
        show "r \<noteq> b \<Longrightarrow> slot s' r (instanceIndex d) = lobeMatrix d (agedScale d) (matrixOffsetRed s)"
          using sr sl True by (simp add: agedScale_def)
        show "\<And>k j. j \<noteq> instanceIndex d \<Longrightarrow> slot s' k j = slot s k j"
          using so sl by (simp add: slot_def)
        show "\<And>k. k \<noteq> r \<Longrightarrow> k \<noteq> b \<Longrightarrow> heap s' k = heap s k"
          using ho hs by simp
        show "\<And>k. length (heap s' k) = length (heap s k)"
          using hl hs by simp
      qed
    qed
  next
    case False
    then have dl: "\<not> life (dipoles s ! a) - dt * speed (params s) \<le> 0"
      and dd: "d = (dipoles s ! a)\<lparr>life := life (dipoles s ! a) - dt * speed (params s),
          quaternion := Quat_multiply (Quat_setFromAxisAngle (axis (dipoles s ! a)) (dt * spinSpeed (params s)))
                  (quaternion (dipoles s ! a))\<rparr>"
      unfolding d_def aged_def Let_def by (auto split: if_splits)
    have sc: "agedScale d = sin ((maxLife (dipoles s ! a) - (life (dipoles s ! a) - dt * speed (params s))) /
         maxLife (dipoles s ! a) * pi) * maxScale (dipoles s ! a)"
      using dl by (simp add: agedScale_def dd)
    from adv i a dl have u: "updateInstanceMatrix d (agedScale d) ?s2 = Inr s'"
      unfolding advanceDipole_def Let_def a_def[symmetric] sc
      by (simp add: dd)
    from u show ?thesis
    proof (rule updateInstanceMatrix_effect)
      fix r b
      assume r: "redMatricesBuffer ?s2 = Some r" and b: "blueMatricesBuffer ?s2 = Some b"
        and fr: "sim_frame ?s2 s'"
        and e: "dipoles s' = dipoles ?s2" "instanceIndices s' = instanceIndices ?s2"
          "activeDipoleIndices s' = activeDipoleIndices ?s2"
        and sb: "slot s' b (instanceIndex d) = lobeMatrix d (agedScale d) (matrixOffsetBlue ?s2)"
        and sr: "r \<noteq> b \<Longrightarrow> slot s' r (instanceIndex d) = lobeMatrix d (agedScale d) (matrixOffsetRed ?s2)"
        and so: "\<And>k j. j \<noteq> instanceIndex d \<Longrightarrow> slot s' k j = slot ?s2 k j"
        and ho: "\<And>k. k \<noteq> r \<Longrightarrow> k \<noteq> b \<Longrightarrow> heap s' k = heap ?s2 k"
        and hl: "\<And>k. length (heap s' k) = length (heap ?s2 k)"
      have flds: "dipoles s' = (dipoles s)[a := d]" "instanceIndices s' = instanceIndices s"
        "activeDipoleIndices s' = activeDipoleIndices s"
        using e by simp_all
      show ?thesis
      proof (rule that[of r b])
        show "redMatricesBuffer s = Some r" using r by simp
        show "blueMatricesBuffer s = Some b" using b by simp
        show "i < length (activeDipoleIndices s)" by (rule i)
        show "a < length (dipoles s)" by (rule a)
        show "sim_frame s s'" using fr by (simp add: sim_frame_def)
        show "dipoles s' = (dipoles s)[a := settled d]"
          using False flds by (simp add: settled_def)
        show "instanceIndices s' =
          (if life d \<le> 0 then instanceIndices s @ [instanceIndex d] else instanceIndices s)"
          using False flds by simp
        show "activeDipoleIndices s' =
          (if life d \<le> 0 then take i (activeDipoleIndices s) @ drop (Suc i) (activeDipoleIndices s)
           else activeDipoleIndices s)"
          using False flds by simp
        show "slot s' b (instanceIndex d) = lobeMatrix d (agedScale d) (matrixOffsetBlue s)"
          using sb by simp
        show "r \<noteq> b \<Longrightarrow> slot s' r (instanceIndex d) = lobeMatrix d (agedScale d) (matrixOffsetRed s)"
          using sr by simp
        show "\<And>k j. j \<noteq> instanceIndex d \<Longrightarrow> slot s' k j = slot s k j"
          using so by (simp add: slot_def)
        show "\<And>k. k \<noteq> r \<Longrightarrow> k \<noteq> b \<Longrightarrow> heap s' k = heap s k"
          using ho by simp
        show "\<And>k. length (heap s' k) = length (heap s k)"
          using hl by simp
      qed
    qed
  qed
qed

lemma aged_fields [simp]:
  "instanceIndex (aged dt ps d) = instanceIndex d"
  "maxLife (aged dt ps d) = maxLife d"
  "maxScale (aged dt ps d) = maxScale d"
  "position (aged dt ps d) = position d"
  "axis (aged dt ps d) = axis d"
  "life (aged dt ps d) = life d - dt * speed ps"
  by (simp_all add: aged_def Let_def)

lemma settled_fields [simp]:
  "instanceIndex (settled d) = instanceIndex d"
  "maxLife (settled d) = maxLife d"
  "maxScale (settled d) = maxScale d"
  "position (settled d) = position d"
  "quaternion (settled d) = quaternion d"
  "axis (settled d) = axis d"
  "life (settled d) = (if life d \<le> 0 then 0 else life d)"
  by (simp_all add: settled_def)

lemma advanceDipole_struct:
  assumes st: "pool_struct s" and adv: "advanceDipole dt i s = Inr s'"
  shows "pool_struct s'"
proof -
  let ?act = "activeDipoleIndices s"
  let ?a = "?act ! i"
  from st have len: "length (dipoles s) = maxDipoles s"
    and dist: "distinct (instanceIndices s @ ?act)"
    and un: "set (instanceIndices s) \<union> set ?act = {0..<maxDipoles s}"
    and idx: "\<forall>k\<in>{0..<maxDipoles s}. instanceIndex (dipoles s ! k) = k"
    by (auto simp: pool_struct_def)
  from adv show ?thesis
  proof (rule advanceDipole_effect)
    fix r b
    assume i: "i < length ?act" and a: "?a < length (dipoles s)"
      and fr: "sim_frame s s'"
      and ds: "dipoles s' = (dipoles s)[?a := settled (aged dt (params s) (dipoles s ! ?a))]"
      and fs: "instanceIndices s' =
         (if life (aged dt (params s) (dipoles s ! ?a)) \<le> 0
          then instanceIndices s @ [instanceIndex (aged dt (params s) (dipoles s ! ?a))]
          else instanceIndices s)"
      and ac: "activeDipoleIndices s' =
         (if life (aged dt (params s) (dipoles s ! ?a)) \<le> 0
          then take i ?act @ drop (Suc i) ?act else ?act)"
    have m: "maxDipoles s' = maxDipoles s" using fr by (simp add: sim_frame_def)
    have a_lt: "?a < maxDipoles s" using a len by simp
    have ii: "instanceIndex (dipoles s ! ?a) = ?a" using idx a_lt by simp
    have a_in: "?a \<in> set ?act" using i by simp
    have dact: "distinct ?act" using dist by simp
    note rm = remove_nth_props[OF dact i]
    have a_notfree: "?a \<notin> set (instanceIndices s)" using dist a_in by auto
    show "pool_struct s'"
      unfolding pool_struct_def
    proof (intro conjI ballI)
      show "length (dipoles s') = maxDipoles s'" using ds m len by simp
      show "distinct (instanceIndices s' @ activeDipoleIndices s')"
        using fs ac ii rm(1,2) dist a_notfree by auto
      show "set (instanceIndices s') \<union> set (activeDipoleIndices s') = {0..<maxDipoles s'}"
        using fs ac ii rm(2) un m a_in by auto
      fix k assume "k \<in> {0..<maxDipoles s'}"
      then show "instanceIndex (dipoles s' ! k) = k"
        using ds m idx a ii by (cases "k = ?a") auto
    qed
  qed
qed

lemma advanceLoop_effect:
  assumes "pool_struct s" "k \<le> length (activeDipoleIndices s)"
    "advanceLoop dt k (s, n) = Inr (s', n')"
  shows "sim_frame s s' \<and> pool_struct s' \<and>
    (\<forall>c. length (heap s' c) = length (heap s c)) \<and>
    (\<forall>c. Some c \<noteq> redMatricesBuffer s \<and> Some c \<noteq> blueMatricesBuffer s \<longrightarrow> heap s' c = heap s c) \<and>
    (\<forall>j. j \<notin> set (take k (activeDipoleIndices s)) \<longrightarrow>
        dipoles s' ! j = dipoles s ! j \<and> (\<forall>c. slot s' c j = slot s c j)) \<and>
    (\<forall>i\<in>set (take k (activeDipoleIndices s)).
        dipoles s' ! i = settled (aged dt (params s) (dipoles s ! i)) \<and>
        (\<forall>r b. redMatricesBuffer s = Some r \<and> blueMatricesBuffer s = Some b \<longrightarrow>
           slot s' b i = lobeMatrix (aged dt (params s) (dipoles s ! i))
                           (agedScale (aged dt (params s) (dipoles s ! i))) (matrixOffsetBlue s) \<and>
           (r \<noteq> b \<longrightarrow>
            slot s' r i = lobeMatrix (aged dt (params s) (dipoles s ! i))
                           (agedScale (aged dt (params s) (dipoles s ! i))) (matrixOffsetRed s))))"
  using assms
proof (induction k arbitrary: s n)
  case 0
  then show ?case by (simp add: sim_frame_refl)
next
  case (Suc k)
  let ?act = "activeDipoleIndices s"
  let ?a = "?act ! k"
  let ?d = "aged dt (params s) (dipoles s ! ?a)"
  from Suc.prems(3) obtain s1 where s1: "advanceDipole dt k s = Inr s1"
    and rest: "advanceLoop dt k (s1, n + 1) = Inr (s', n')"
    by (auto split: sum.splits)
  have st1: "pool_struct s1" using Suc.prems(1) s1 by (rule advanceDipole_struct)
  from Suc.prems(1) have len: "length (dipoles s) = maxDipoles s"
    and dist: "distinct (instanceIndices s @ ?act)"
    and idx: "\<forall>k\<in>{0..<maxDipoles s}. instanceIndex (dipoles s ! k) = k"
    by (auto simp: pool_struct_def)
  have klt: "k < length ?act" using Suc.prems(2) by simp
  have dact: "distinct ?act" using dist by simp
  have tk: "take (Suc k) ?act = take k ?act @ [?a]"
    using klt by (simp add: take_Suc_conv_app_nth)
  have a_notin: "?a \<notin> set (take k ?act)"
    using dact klt tk by (metis distinct_take distinct_append disjoint_insert(1) list.simps(15) distinct.simps(2) not_distinct_conv_prefix)
  from s1 show ?case
  proof (rule advanceDipole_effect)
    fix r b
    assume r: "redMatricesBuffer s = Some r" and b: "blueMatricesBuffer s = Some b"
      and a: "?a < length (dipoles s)"
      and fr: "sim_frame s s1"
      and ds: "dipoles s1 = (dipoles s)[?a := settled ?d]"
      and ac: "activeDipoleIndices s1 =
         (if life ?d \<le> 0 then take k ?act @ drop (Suc k) ?act else ?act)"
      and sb: "slot s1 b (instanceIndex ?d) = lobeMatrix ?d (agedScale ?d) (matrixOffsetBlue s)"
      and sr: "r \<noteq> b \<Longrightarrow> slot s1 r (instanceIndex ?d) = lobeMatrix ?d (agedScale ?d) (matrixOffsetRed s)"
      and so: "\<And>c j. j \<noteq> instanceIndex ?d \<Longrightarrow> slot s1 c j = slot s c j"
      and ho: "\<And>c. c \<noteq> r \<Longrightarrow> c \<noteq> b \<Longrightarrow> heap s1 c = heap s c"
      and hl: "\<And>c. length (heap s1 c) = length (heap s c)"
    have ii: "instanceIndex ?d = ?a" using idx a len by simp
    have tk1: "take k (activeDipoleIndices s1) = take k ?act"
      using ac klt by simp
    have k1: "k \<le> length (activeDipoleIndices s1)"
      using ac klt by (simp split: if_splits)
    have p1: "params s1 = params s" "redMatricesBuffer s1 = redMatricesBuffer s"
      "blueMatricesBuffer s1 = blueMatricesBuffer s" "matrixOffsetRed s1 = matrixOffsetRed s"
      "matrixOffsetBlue s1 = matrixOffsetBlue s"
      using fr by (simp_all add: sim_frame_def)
    note IH = Suc.IH[OF st1 k1 rest, unfolded tk1 p1]
    from IH have fr2: "sim_frame s1 s'" and st': "pool_struct s'"
      and hl2: "\<forall>c. length (heap s' c) = length (heap s1 c)"
      and ho2: "\<forall>c. Some c \<noteq> redMatricesBuffer s \<and> Some c \<noteq> blueMatricesBuffer s \<longrightarrow> heap s' c = heap s1 c"
      and un2: "\<forall>j. j \<notin> set (take k ?act) \<longrightarrow>
         dipoles s' ! j = dipoles s1 ! j \<and> (\<forall>c. slot s' c j = slot s1 c j)"
      and ad2: "\<forall>i\<in>set (take k ?act).
        dipoles s' ! i = settled (aged dt (params s) (dipoles s1 ! i)) \<and>
        (\<forall>r b. redMatricesBuffer s = Some r \<and> blueMatricesBuffer s = Some b \<longrightarrow>
           slot s' b i = lobeMatrix (aged dt (params s) (dipoles s1 ! i))
                           (agedScale (aged dt (params s) (dipoles s1 ! i))) (matrixOffsetBlue s) \<and>
           (r \<noteq> b \<longrightarrow>
            slot s' r i = lobeMatrix (aged dt (params s) (dipoles s1 ! i))
                           (agedScale (aged dt (params s) (dipoles s1 ! i))) (matrixOffsetRed s)))"
      by blast+
    have other: "\<And>j. j \<noteq> ?a \<Longrightarrow> dipoles s1 ! j = dipoles s ! j"
      using ds by simp
    show ?thesis
    proof (intro conjI allI impI ballI)
      show "sim_frame s s'" using fr fr2 by (rule sim_frame_trans)
      show "pool_struct s'" by (rule st')
      show "\<And>c. length (heap s' c) = length (heap s c)" using hl hl2 by simp
      show "\<And>c. Some c \<noteq> redMatricesBuffer s \<and> Some c \<noteq> blueMatricesBuffer s \<Longrightarrow> heap s' c = heap s c"
        using ho ho2 r b by auto
    next
      fix j assume j: "j \<notin> set (take (Suc k) ?act)"
      then have ja: "j \<noteq> ?a" and jk: "j \<notin> set (take k ?act)" using tk by auto
      show "dipoles s' ! j = dipoles s ! j" using un2 jk other[OF ja] by simp
      fix c
      show "slot s' c j = slot s c j" using un2 jk so[of j c] ja ii by simp
    next
      fix i assume i: "i \<in> set (take (Suc k) ?act)"
      show "dipoles s' ! i = settled (aged dt (params s) (dipoles s ! i))"
      proof (cases "i = ?a")
        case True
        then show ?thesis using un2 a_notin ds a by simp
      next
        case False
        then have "i \<in> set (take k ?act)" using i tk by auto
        then show ?thesis using ad2 other[OF False] by simp
      qed
    next
      fix i r' b' assume i: "i \<in> set (take (Suc k) ?act)"
        and rb: "redMatricesBuffer s = Some r' \<and> blueMatricesBuffer s = Some b'"
      then have rr: "r' = r" "b' = b" using r b by auto
      show "slot s' b' i = lobeMatrix (aged dt (params s) (dipoles s ! i))
              (agedScale (aged dt (params s) (dipoles s ! i))) (matrixOffsetBlue s)"
      proof (cases "i = ?a")
        case True
        then show ?thesis using un2 a_notin sb ii rr by simp
      next
        case False
        then have "i \<in> set (take k ?act)" using i tk by auto
        then show ?thesis using ad2 other[OF False] rb by simp
      qed
    next
      fix i r' b' assume i: "i \<in> set (take (Suc k) ?act)"
        and rb: "redMatricesBuffer s = Some r' \<and> blueMatricesBuffer s = Some b'"
        and ne: "r' \<noteq> b'"
      then have rr: "r' = r" "b' = b" using r b by auto
      show "slot s' r' i = lobeMatrix (aged dt (params s) (dipoles s ! i))
              (agedScale (aged dt (params s) (dipoles s ! i))) (matrixOffsetRed s)"
      proof (cases "i = ?a")
        case True
        then show ?thesis using un2 a_notin sr ii rr ne by simp
      next
        case False
        then have "i \<in> set (take k ?act)" using i tk by auto
        then show ?thesis using ad2 other[OF False] rb ne by simp
      qed
    qed
  qed
qed

lemma createDipole_effect:
  assumes c: "createDipole r s = Inr s'" and ne: "instanceIndices s \<noteq> []"
  defines "x \<equiv> last (instanceIndices s)"
  obtains rb bb where "redMatricesBuffer s = Some rb" "blueMatricesBuffer s = Some bb"
    "x < length (dipoles s)" "sim_frame s s'"
    "instanceIndices s' = butlast (instanceIndices s)"
    "activeDipoleIndices s' = activeDipoleIndices s @ [x]"
    "dipoles s' = (dipoles s)[x := dipoles s' ! x]"
    "life (dipoles s' ! x) = dipoleLifetime (params s) * (0.8 + r 0 * 0.4)"
    "maxLife (dipoles s' ! x) = life (dipoles s' ! x)"
    "maxScale (dipoles s' ! x) =
       maxScaleBase (params s) * (1 + (r 1 - 0.5) * 2 * scaleVariance (params s))"
    "axis (dipoles s' ! x) =
       Vec3_normalize (axis (dipoles s ! x)) (Vec3_set (r 2 - 0.5) (r 3 - 0.5) (r 4 - 0.5))"
    "instanceIndex (dipoles s' ! x) = x"
    "position (dipoles s' ! x) =
       Vec3_set ((r 5 - 0.5) * 4 * 2) ((r 6 - 0.5) * 4 * 2) ((r 7 - 0.5) * 4 * 2)"
    "quaternion (dipoles s' ! x) =
       Quat_setFromEuler (Vec3_set (r 8 * pi * 2) (r 9 * pi * 2) (r 10 * pi * 2))"
    "slot s' bb x = lobeMatrix (dipoles s' ! x) 0.001 (matrixOffsetBlue s)"
    "rb \<noteq> bb \<Longrightarrow> slot s' rb x = lobeMatrix (dipoles s' ! x) 0.001 (matrixOffsetRed s)"
    "\<And>k j. j \<noteq> x \<Longrightarrow> slot s' k j = slot s k j"
    "\<And>k. k \<noteq> rb \<Longrightarrow> k \<noteq> bb \<Longrightarrow> heap s' k = heap s k"
    "\<And>k. length (heap s' k) = length (heap s k)"
proof -
  let ?s1 = "s\<lparr>instanceIndices := butlast (instanceIndices s),
               activeDipoleIndices := activeDipoleIndices s @ [x]\<rparr>"
  let ?l = "dipoleLifetime (params s) * (0.8 + r 0 * 0.4)"
  let ?d = "(dipoles s ! x)\<lparr>life := ?l, maxLife := ?l,
      maxScale := maxScaleBase (params s) * (1 + (r 1 - 0.5) * 2 * scaleVariance (params s)),
      axis := Vec3_normalize (axis (dipoles s ! x)) (Vec3_set (r 2 - 0.5) (r 3 - 0.5) (r 4 - 0.5)),
      instanceIndex := x,
      position := Vec3_set ((r 5 - 0.5) * 4 * 2) ((r 6 - 0.5) * 4 * 2) ((r 7 - 0.5) * 4 * 2),
      quaternion := Quat_setFromEuler (Vec3_set (r 8 * pi * 2) (r 9 * pi * 2) (r 10 * pi * 2))\<rparr>"
  let ?s2 = "?s1\<lparr>dipoles := (dipoles s)[x := ?d]\<rparr>"
  from c ne have x: "x < length (dipoles s)"
    unfolding createDipole_def Let_def x_def by (auto split: if_splits)
  from c ne x have u: "updateInstanceMatrix ?d 0.001 ?s2 = Inr s'"
    unfolding createDipole_def Let_def x_def by (simp split: if_splits)
  from u show ?thesis
  proof (rule updateInstanceMatrix_effect)
    fix rb bb
    assume rb: "redMatricesBuffer ?s2 = Some rb" and bb: "blueMatricesBuffer ?s2 = Some bb"
      and fr: "sim_frame ?s2 s'"
      and e: "dipoles s' = dipoles ?s2" "instanceIndices s' = instanceIndices ?s2"
        "activeDipoleIndices s' = activeDipoleIndices ?s2"
      and sb: "slot s' bb (instanceIndex ?d) = lobeMatrix ?d 0.001 (matrixOffsetBlue ?s2)"
      and sr: "rb \<noteq> bb \<Longrightarrow> slot s' rb (instanceIndex ?d) = lobeMatrix ?d 0.001 (matrixOffsetRed ?s2)"
      and so: "\<And>k j. j \<noteq> instanceIndex ?d \<Longrightarrow> slot s' k j = slot ?s2 k j"
      and ho: "\<And>k. k \<noteq> rb \<Longrightarrow> k \<noteq> bb \<Longrightarrow> heap s' k = heap ?s2 k"
      and hl: "\<And>k. length (heap s' k) = length (heap ?s2 k)"
    have dx: "dipoles s' ! x = ?d" using e(1) x by simp
    show ?thesis
    proof (rule that[of rb bb])
      show "redMatricesBuffer s = Some rb" using rb by simp
      show "blueMatricesBuffer s = Some bb" using bb by simp
      show "x < length (dipoles s)" by (rule x)
      show "sim_frame s s'" using fr by (simp add: sim_frame_def)
      show "instanceIndices s' = butlast (instanceIndices s)" using e by simp
      show "activeDipoleIndices s' = activeDipoleIndices s @ [x]" using e by simp
      show "dipoles s' = (dipoles s)[x := dipoles s' ! x]" using e(1) x by simp
      show "life (dipoles s' ! x) = ?l" by (simp add: dx)
      show "maxLife (dipoles s' ! x) = life (dipoles s' ! x)" by (simp add: dx)
      show "maxScale (dipoles s' ! x) =
         maxScaleBase (params s) * (1 + (r 1 - 0.5) * 2 * scaleVariance (params s))"
        by (simp add: dx)
      show "axis (dipoles s' ! x) =
         Vec3_normalize (axis (dipoles s ! x)) (Vec3_set (r 2 - 0.5) (r 3 - 0.5) (r 4 - 0.5))"
        by (simp add: dx)
      show "instanceIndex (dipoles s' ! x) = x" by (simp add: dx)
      show "position (dipoles s' ! x) =
         Vec3_set ((r 5 - 0.5) * 4 * 2) ((r 6 - 0.5) * 4 * 2) ((r 7 - 0.5) * 4 * 2)"
        by (simp add: dx)
      show "quaternion (dipoles s' ! x) =
         Quat_setFromEuler (Vec3_set (r 8 * pi * 2) (r 9 * pi * 2) (r 10 * pi * 2))"
        by (simp add: dx)
      show "slot s' bb x = lobeMatrix (dipoles s' ! x) 0.001 (matrixOffsetBlue s)"
        using sb by (simp add: dx)
      show "rb \<noteq> bb \<Longrightarrow> slot s' rb x = lobeMatrix (dipoles s' ! x) 0.001 (matrixOffsetRed s)"
        using sr by (simp add: dx)
      show "\<And>k j. j \<noteq> x \<Longrightarrow> slot s' k j = slot s k j"
        using so by (simp add: slot_def)
      show "\<And>k. k \<noteq> rb \<Longrightarrow> k \<noteq> bb \<Longrightarrow> heap s' k = heap s k"
        using ho by simp
      show "\<And>k. length (heap s' k) = length (heap s k)"
        using hl by simp
    qed
  qed
qed

lemma postMatrices_effect:
  assumes "postMatrices s = Inr s'"
  obtains r b where "redMatricesBuffer s = Some r" "blueMatricesBuffer s = Some b" "r \<noteq> b"
    "posted s' = posted s @ [(r, b)]"
    "redMatricesBuffer s' = Some (nextBuffer s)"
    "blueMatricesBuffer s' = Some (Suc (nextBuffer s))"
    "nextBuffer s' = Suc (Suc (nextBuffer s))"
    "heap s' = (heap s)(nextBuffer s := replicate (maxDipoles s * 16) 0,
                        Suc (nextBuffer s) := replicate (maxDipoles s * 16) 0)"
    "dipoles s' = dipoles s" "instanceIndices s' = instanceIndices s"
    "activeDipoleIndices s' = activeDipoleIndices s" "maxDipoles s' = maxDipoles s"
    "params s' = params s" "lobeOffset s' = lobeOffset s"
    "matrixOffsetRed s' = matrixOffsetRed s" "matrixOffsetBlue s' = matrixOffsetBlue s"
    "lastTimestamp s' = lastTimestamp s" "simulationRunning s' = simulationRunning s"
proof -
  from assms obtain r b where rb: "redMatricesBuffer s = Some r" "blueMatricesBuffer s = Some b"
    unfolding postMatrices_def by (auto split: option.splits)
  with assms have ne: "r \<noteq> b"
    unfolding postMatrices_def by (auto split: if_splits)
  have s': "s' = s\<lparr>posted := posted s @ [(r, b)],
      heap := (heap s)(nextBuffer s := replicate (maxDipoles s * 16) 0,
                        Suc (nextBuffer s) := replicate (maxDipoles s * 16) 0),
      nextBuffer := Suc (Suc (nextBuffer s)),
      redMatricesBuffer := Some (nextBuffer s),
      blueMatricesBuffer := Some (Suc (nextBuffer s))\<rparr>"
    using assms rb ne unfolding postMatrices_def newArrayBuffer_def Let_def
    by (simp add: mult.commute)
  show ?thesis
    by (rule that[OF rb ne]) (simp_all add: s')
qed

lemma spawnDecision_cases:
  assumes "spawnDecision dt rnd s = Inr s1"
  obtains (spawn) "rnd 0 < creationProbability (params s) * dt" "instanceIndices s \<noteq> []"
      "createDipole (\<lambda>k. rnd (Suc k)) s = Inr s1"
  | (skip) "\<not> (rnd 0 < creationProbability (params s) * dt \<and> instanceIndices s \<noteq> [])" "s1 = s"
proof (cases "rnd 0 < creationProbability (params s) * dt \<and> instanceIndices s \<noteq> []")
  case True
  with assms have "createDipole (\<lambda>k. rnd (Suc k)) s = Inr s1"
    by (simp add: spawnDecision_def)
  with True show ?thesis by (intro spawn) simp_all
next
  case False
  with assms have "s1 = s" by (auto simp: spawnDecision_def)
  with False show ?thesis by (intro skip) simp_all
qed

lemma spawnDecision_struct:
  assumes st: "pool_struct s" and sp: "spawnDecision dt rnd s = Inr s1"
  shows "pool_struct s1"
proof -
  from sp show ?thesis
  proof (cases rule: spawnDecision_cases)
    case skip
    with st show ?thesis by simp
  next
    case spawn
    let ?x = "last (instanceIndices s)"
    from st have dist: "distinct (instanceIndices s @ activeDipoleIndices s)"
      and un: "set (instanceIndices s) \<union> set (activeDipoleIndices s) = {0..<maxDipoles s}"
      and len: "length (dipoles s) = maxDipoles s"
      and idx: "\<forall>k\<in>{0..<maxDipoles s}. instanceIndex (dipoles s ! k) = k"
      by (auto simp: pool_struct_def)
    have fsplit: "instanceIndices s = butlast (instanceIndices s) @ [?x]"
      using spawn(2) by simp
    have d2: "distinct (butlast (instanceIndices s) @ [?x] @ activeDipoleIndices s)"
      using dist fsplit by (metis append.assoc)
    have s2: "set (butlast (instanceIndices s)) \<union> {?x} \<union> set (activeDipoleIndices s) = {0..<maxDipoles s}"
      using un fsplit by (metis Un_insert_right append_Nil2 list.simps(15) set_append sup_bot.right_neutral)
    note cp = createDipole_pool[OF spawn(3) spawn(2)]
    show ?thesis
      unfolding pool_struct_def
    proof (intro conjI ballI)
      show "length (dipoles s1) = maxDipoles s1" using cp(4,5) len by simp
      show "distinct (instanceIndices s1 @ activeDipoleIndices s1)"
        using cp(1,2) d2 by auto
      show "set (instanceIndices s1) \<union> set (activeDipoleIndices s1) = {0..<maxDipoles s1}"
        using cp(1,2,4) s2 by auto
      fix i assume "i \<in> {0..<maxDipoles s1}"
      then show "instanceIndex (dipoles s1 ! i) = i"
        using cp(4,6,7) idx by (cases "i = ?x") auto
    qed
  qed
qed

lemma spawnDecision_frame:
  assumes sp: "spawnDecision dt rnd s = Inr s1"
  shows "sim_frame s s1"
    and "\<And>c. length (heap s1 c) = length (heap s c)"
    and "\<And>c. Some c \<noteq> redMatricesBuffer s \<Longrightarrow> Some c \<noteq> blueMatricesBuffer s \<Longrightarrow>
           heap s1 c = heap s c"
    and "\<And>c j. j \<notin> set (activeDipoleIndices s1) \<Longrightarrow> slot s1 c j = slot s c j"
    and "\<And>j. j \<notin> set (activeDipoleIndices s1) \<Longrightarrow> dipoles s1 ! j = dipoles s ! j"
    and "activeDipoleIndices s1 = [] \<Longrightarrow> s1 = s"
proof -
  have "sim_frame s s1 \<and> (\<forall>c. length (heap s1 c) = length (heap s c)) \<and>
    (\<forall>c. Some c \<noteq> redMatricesBuffer s \<and> Some c \<noteq> blueMatricesBuffer s \<longrightarrow> heap s1 c = heap s c) \<and>
    (\<forall>c j. j \<notin> set (activeDipoleIndices s1) \<longrightarrow> slot s1 c j = slot s c j) \<and>
    (\<forall>j. j \<notin> set (activeDipoleIndices s1) \<longrightarrow> dipoles s1 ! j = dipoles s ! j) \<and>
    (activeDipoleIndices s1 = [] \<longrightarrow> s1 = s)"
    using sp
  proof (cases rule: spawnDecision_cases)
    case skip
    then show ?thesis by (simp add: sim_frame_refl)
  next
    case spawn
    from spawn(3) spawn(2) show ?thesis
    proof (rule createDipole_effect)
      fix rb bb
      assume "redMatricesBuffer s = Some rb" "blueMatricesBuffer s = Some bb"
        "sim_frame s s1"
        "activeDipoleIndices s1 = activeDipoleIndices s @ [last (instanceIndices s)]"
        "dipoles s1 = (dipoles s)[last (instanceIndices s) := dipoles s1 ! last (instanceIndices s)]"
        "\<And>k j. j \<noteq> last (instanceIndices s) \<Longrightarrow> slot s1 k j = slot s k j"
        "\<And>k. k \<noteq> rb \<Longrightarrow> k \<noteq> bb \<Longrightarrow> heap s1 k = heap s k"
        "\<And>k. length (heap s1 k) = length (heap s k)"
      then show ?thesis
        by (auto, metis nth_list_update_neq)
    qed
  qed
  then show "sim_frame s s1"
    and "\<And>c. length (heap s1 c) = length (heap s c)"
    and "\<And>c. Some c \<noteq> redMatricesBuffer s \<Longrightarrow> Some c \<noteq> blueMatricesBuffer s \<Longrightarrow>
           heap s1 c = heap s c"
    and "\<And>c j. j \<notin> set (activeDipoleIndices s1) \<Longrightarrow> slot s1 c j = slot s c j"
    and "\<And>j. j \<notin> set (activeDipoleIndices s1) \<Longrightarrow> dipoles s1 ! j = dipoles s ! j"
    and "activeDipoleIndices s1 = [] \<Longrightarrow> s1 = s"
    by blast+
qed

lemma advanceLoop_count:
  "advanceLoop dt k (s, n) = Inr (s', n') \<Longrightarrow> n' = n + k"
proof (induction k arbitrary: s n)
  case 0
  then show ?case by simp
next
  case (Suc k)
  from Suc.prems obtain s1 where "advanceLoop dt k (s1, n + 1) = Inr (s', n')"
    by (auto split: sum.splits)
  from Suc.IH[OF this] show ?case by simp
qed

lemma updateSimulation_parts:
  assumes "simulationRunning s" "updateSimulation ts rnd s = Inr s'"
  obtains s1 s2 where
    "spawnDecision (deltaTime s ts) rnd (s\<lparr>lastTimestamp := ts\<rparr>) = Inr s1"
    "advanceLoop (deltaTime s ts) (length (activeDipoleIndices s1)) (s1, 0) =
       Inr (s2, length (activeDipoleIndices s1))"
    "activeDipoleIndices s1 = [] \<Longrightarrow> s' = s2"
    "activeDipoleIndices s1 \<noteq> [] \<Longrightarrow> postMatrices s2 = Inr s'"
proof -
  from assms obtain s1 s2 n where
    sp: "spawnDecision (deltaTime s ts) rnd (s\<lparr>lastTimestamp := ts\<rparr>) = Inr s1" and
    lp: "advanceLoop (deltaTime s ts) (length (activeDipoleIndices s1)) (s1, 0) = Inr (s2, n)" and
    fin: "(if n > 0 then postMatrices s2 else Inr s2) = Inr s'"
    unfolding updateSimulation_def Let_def
    by (auto split: sum.splits prod.splits)
  from advanceLoop_count[OF lp] have n: "n = length (activeDipoleIndices s1)" by simp
  show ?thesis
    by (rule that[OF sp lp[unfolded n]]) (use fin n in auto)
qed

lemma updateSimulation_effect:
  assumes running: "simulationRunning s" and u: "updateSimulation ts rnd s = Inr s'"
    and st: "pool_struct s" and own: "own_inv s"
  obtains s1 where
    "spawnDecision (deltaTime s ts) rnd (s\<lparr>lastTimestamp := ts\<rparr>) = Inr s1"
    "pool_struct s1" "pool_struct s'"
    "sim_frame (s\<lparr>lastTimestamp := ts\<rparr>) s1"
    "params s' = params s" "maxDipoles s' = maxDipoles s" "lobeOffset s' = lobeOffset s"
    "matrixOffsetRed s' = matrixOffsetRed s" "matrixOffsetBlue s' = matrixOffsetBlue s"
    "lastTimestamp s' = ts" "simulationRunning s'"
    "\<And>i. i \<in> set (activeDipoleIndices s1) \<Longrightarrow>
       dipoles s' ! i = settled (aged (deltaTime s ts) (params s) (dipoles s1 ! i))"
    "\<And>j. j \<notin> set (activeDipoleIndices s1) \<Longrightarrow> dipoles s' ! j = dipoles s ! j"
    "\<And>c. c < nextBuffer s \<Longrightarrow> Some c \<noteq> redMatricesBuffer s \<Longrightarrow>
       Some c \<noteq> blueMatricesBuffer s \<Longrightarrow> heap s' c = heap s c"
    "\<And>c. c < nextBuffer s \<Longrightarrow> length (heap s' c) = length (heap s c)"
    "activeDipoleIndices s1 = [] \<Longrightarrow> s' = s\<lparr>lastTimestamp := ts\<rparr>"
    "activeDipoleIndices s1 \<noteq> [] \<Longrightarrow>
       \<exists>r b. redMatricesBuffer s = Some r \<and> blueMatricesBuffer s = Some b \<and> r \<noteq> b \<and>
         r < nextBuffer s \<and> b < nextBuffer s \<and>
         posted s' = posted s @ [(r, b)] \<and>
         redMatricesBuffer s' = Some (nextBuffer s) \<and>
         blueMatricesBuffer s' = Some (Suc (nextBuffer s)) \<and>
         nextBuffer s' = Suc (Suc (nextBuffer s)) \<and>
         heap s' (nextBuffer s) = replicate (maxDipoles s * 16) 0 \<and>
         heap s' (Suc (nextBuffer s)) = replicate (maxDipoles s * 16) 0 \<and>
         (\<forall>i\<in>set (activeDipoleIndices s1).
            slot s' r i = lobeMatrix (aged (deltaTime s ts) (params s) (dipoles s1 ! i))
                            (agedScale (aged (deltaTime s ts) (params s) (dipoles s1 ! i)))
                            (matrixOffsetRed s) \<and>
            slot s' b i = lobeMatrix (aged (deltaTime s ts) (params s) (dipoles s1 ! i))
                            (agedScale (aged (deltaTime s ts) (params s) (dipoles s1 ! i)))
                            (matrixOffsetBlue s)) \<and>
         (\<forall>j. j \<notin> set (activeDipoleIndices s1) \<longrightarrow>
            slot s' r j = slot s r j \<and> slot s' b j = slot s b j)"
proof -
  let ?s0 = "s\<lparr>lastTimestamp := ts\<rparr>"
  let ?dt = "deltaTime s ts"
  obtain s1 s2 where
    sp: "spawnDecision ?dt rnd ?s0 = Inr s1" and
    lp: "advanceLoop ?dt (length (activeDipoleIndices s1)) (s1, 0) =
           Inr (s2, length (activeDipoleIndices s1))" and
    fin0: "activeDipoleIndices s1 = [] \<Longrightarrow> s' = s2" and
    fin1: "activeDipoleIndices s1 \<noteq> [] \<Longrightarrow> postMatrices s2 = Inr s'"
    by (rule updateSimulation_parts[OF running u]) blast
  have st0: "pool_struct ?s0" using st by (simp add: pool_struct_def)
  have st1: "pool_struct s1" using st0 sp by (rule spawnDecision_struct)
  note sf = spawnDecision_frame[OF sp]
  have f01: "sim_frame ?s0 s1" by (rule sf(1))
  note le = advanceLoop_effect[OF st1 order_refl lp, unfolded take_all[OF order_refl]]
  from le have f12: "sim_frame s1 s2" and st2: "pool_struct s2"
    and hl2: "\<forall>c. length (heap s2 c) = length (heap s1 c)"
    and ho2: "\<forall>c. Some c \<noteq> redMatricesBuffer s1 \<and> Some c \<noteq> blueMatricesBuffer s1 \<longrightarrow>
               heap s2 c = heap s1 c"
    and un2: "\<forall>j. j \<notin> set (activeDipoleIndices s1) \<longrightarrow>
        dipoles s2 ! j = dipoles s1 ! j \<and> (\<forall>c. slot s2 c j = slot s1 c j)"
    and ad2: "\<forall>i\<in>set (activeDipoleIndices s1).
        dipoles s2 ! i = settled (aged ?dt (params s1) (dipoles s1 ! i)) \<and>
        (\<forall>r b. redMatricesBuffer s1 = Some r \<and> blueMatricesBuffer s1 = Some b \<longrightarrow>
           slot s2 b i = lobeMatrix (aged ?dt (params s1) (dipoles s1 ! i))
                           (agedScale (aged ?dt (params s1) (dipoles s1 ! i))) (matrixOffsetBlue s1) \<and>
           (r \<noteq> b \<longrightarrow>
            slot s2 r i = lobeMatrix (aged ?dt (params s1) (dipoles s1 ! i))
                           (agedScale (aged ?dt (params s1) (dipoles s1 ! i))) (matrixOffsetRed s1)))"
    by blast+
  have f02: "sim_frame ?s0 s2" using f01 f12 by (rule sim_frame_trans)
  have e1: "params s1 = params s" "redMatricesBuffer s1 = redMatricesBuffer s"
    "blueMatricesBuffer s1 = blueMatricesBuffer s" "matrixOffsetRed s1 = matrixOffsetRed s"
    "matrixOffsetBlue s1 = matrixOffsetBlue s"
    using f01 by (simp_all add: sim_frame_def)
  have e2: "params s2 = params s" "maxDipoles s2 = maxDipoles s" "lobeOffset s2 = lobeOffset s"
    "matrixOffsetRed s2 = matrixOffsetRed s" "matrixOffsetBlue s2 = matrixOffsetBlue s"
    "lastTimestamp s2 = ts" "simulationRunning s2" "redMatricesBuffer s2 = redMatricesBuffer s"
    "blueMatricesBuffer s2 = blueMatricesBuffer s" "nextBuffer s2 = nextBuffer s"
    "posted s2 = posted s"
    using f02 running by (simp_all add: sim_frame_def)
  have d2: "\<And>i. i \<in> set (activeDipoleIndices s1) \<Longrightarrow>
       dipoles s2 ! i = settled (aged ?dt (params s) (dipoles s1 ! i))"
    using ad2 e1 by simp
  have d2': "\<And>j. j \<notin> set (activeDipoleIndices s1) \<Longrightarrow> dipoles s2 ! j = dipoles s ! j"
    using un2 sf(5) by simp
  have h2: "\<And>c. Some c \<noteq> redMatricesBuffer s \<Longrightarrow> Some c \<noteq> blueMatricesBuffer s \<Longrightarrow>
       heap s2 c = heap s c"
    using ho2 e1 sf(3) by simp
  have l2: "\<And>c. length (heap s2 c) = length (heap s c)"
    using hl2 sf(2) by simp
  show ?thesis
  proof (cases "activeDipoleIndices s1 = []")
    case True
    then have s1: "s1 = ?s0" by (rule sf(6))
    from lp True have "s2 = s1" by simp
    with fin0[OF True] s1 have s': "s' = ?s0" by simp
    show ?thesis
    proof (rule that[OF sp st1])
      show "pool_struct s'" using st0 s' by simp
      show "sim_frame ?s0 s1" by (rule f01)
    qed (use True s' running in \<open>simp_all\<close>)
  next
    case False
    from fin1[OF False] show ?thesis
    proof (rule postMatrices_effect)
      fix r b
      assume r: "redMatricesBuffer s2 = Some r" and b: "blueMatricesBuffer s2 = Some b"
        and ne: "r \<noteq> b"
        and po: "posted s' = posted s2 @ [(r, b)]"
        and r': "redMatricesBuffer s' = Some (nextBuffer s2)"
        and b': "blueMatricesBuffer s' = Some (Suc (nextBuffer s2))"
        and nb: "nextBuffer s' = Suc (Suc (nextBuffer s2))"
        and hp: "heap s' = (heap s2)(nextBuffer s2 := replicate (maxDipoles s2 * 16) 0,
                        Suc (nextBuffer s2) := replicate (maxDipoles s2 * 16) 0)"
        and pe: "dipoles s' = dipoles s2" "instanceIndices s' = instanceIndices s2"
          "activeDipoleIndices s' = activeDipoleIndices s2" "maxDipoles s' = maxDipoles s2"
          "params s' = params s2" "lobeOffset s' = lobeOffset s2"
          "matrixOffsetRed s' = matrixOffsetRed s2" "matrixOffsetBlue s' = matrixOffsetBlue s2"
          "lastTimestamp s' = lastTimestamp s2" "simulationRunning s' = simulationRunning s2"
      have rs: "redMatricesBuffer s = Some r" "blueMatricesBuffer s = Some b"
        using r b e2 by simp_all
      have lt: "r < nextBuffer s" "b < nextBuffer s"
        using own rs by (auto simp: own_inv_iff)
      have hold: "\<And>c. c < nextBuffer s \<Longrightarrow> heap s' c = heap s2 c"
        using hp e2 by simp
      have sold: "\<And>c j. c < nextBuffer s \<Longrightarrow> slot s' c j = slot s2 c j"
        using hold by (simp add: slot_def)
      have st': "pool_struct s'" using st2 pe by (simp add: pool_struct_def)
      show ?thesis
      proof (rule that[OF sp st1 st' f01])
        show "params s' = params s" "maxDipoles s' = maxDipoles s" "lobeOffset s' = lobeOffset s"
          "matrixOffsetRed s' = matrixOffsetRed s" "matrixOffsetBlue s' = matrixOffsetBlue s"
          "lastTimestamp s' = ts" "simulationRunning s'"
          using pe e2 by simp_all
        show "\<And>i. i \<in> set (activeDipoleIndices s1) \<Longrightarrow>
           dipoles s' ! i = settled (aged ?dt (params s) (dipoles s1 ! i))"
          using d2 pe by simp
        show "\<And>j. j \<notin> set (activeDipoleIndices s1) \<Longrightarrow> dipoles s' ! j = dipoles s ! j"
          using d2' pe by simp
        show "\<And>c. c < nextBuffer s \<Longrightarrow> Some c \<noteq> redMatricesBuffer s \<Longrightarrow>
           Some c \<noteq> blueMatricesBuffer s \<Longrightarrow> heap s' c = heap s c"
          using hold h2 by simp
        show "\<And>c. c < nextBuffer s \<Longrightarrow> length (heap s' c) = length (heap s c)"
          using hold l2 by simp
        show "activeDipoleIndices s1 = [] \<Longrightarrow> s' = ?s0" using False by simp
        show "activeDipoleIndices s1 \<noteq> [] \<Longrightarrow>
          \<exists>r b. redMatricesBuffer s = Some r \<and> blueMatricesBuffer s = Some b \<and> r \<noteq> b \<and>
         r < nextBuffer s \<and> b < nextBuffer s \<and>
         posted s' = posted s @ [(r, b)] \<and>
         redMatricesBuffer s' = Some (nextBuffer s) \<and>
         blueMatricesBuffer s' = Some (Suc (nextBuffer s)) \<and>
         nextBuffer s' = Suc (Suc (nextBuffer s)) \<and>
         heap s' (nextBuffer s) = replicate (maxDipoles s * 16) 0 \<and>
         heap s' (Suc (nextBuffer s)) = replicate (maxDipoles s * 16) 0 \<and>
         (\<forall>i\<in>set (activeDipoleIndices s1).
            slot s' r i = lobeMatrix (aged ?dt (params s) (dipoles s1 ! i))
                            (agedScale (aged ?dt (params s) (dipoles s1 ! i)))
                            (matrixOffsetRed s) \<and>
            slot s' b i = lobeMatrix (aged ?dt (params s) (dipoles s1 ! i))
                            (agedScale (aged ?dt (params s) (dipoles s1 ! i)))
                            (matrixOffsetBlue s)) \<and>
         (\<forall>j. j \<notin> set (activeDipoleIndices s1) \<longrightarrow>
            slot s' r j = slot s r j \<and> slot s' b j = slot s b j)"
        proof (rule exI[of _ r], rule exI[of _ b], intro conjI ballI allI impI)
          show "redMatricesBuffer s = Some r" "blueMatricesBuffer s = Some b" by (rule rs)+
          show "r \<noteq> b" by (rule ne)
          show "r < nextBuffer s" "b < nextBuffer s" by (rule lt)+
          show "posted s' = posted s @ [(r, b)]" using po e2 by simp
          show "redMatricesBuffer s' = Some (nextBuffer s)" using r' e2 by simp
          show "blueMatricesBuffer s' = Some (Suc (nextBuffer s))" using b' e2 by simp
          show "nextBuffer s' = Suc (Suc (nextBuffer s))" using nb e2 by simp
          show "heap s' (nextBuffer s) = replicate (maxDipoles s * 16) 0" using hp e2 by simp
          show "heap s' (Suc (nextBuffer s)) = replicate (maxDipoles s * 16) 0" using hp e2 by simp
        next
          fix i assume i: "i \<in> set (activeDipoleIndices s1)"
          show "slot s' r i = lobeMatrix (aged ?dt (params s) (dipoles s1 ! i))
                  (agedScale (aged ?dt (params s) (dipoles s1 ! i))) (matrixOffsetRed s)"
            using ad2 i e1 rs ne sold[OF lt(1)] by simp
          show "slot s' b i = lobeMatrix (aged ?dt (params s) (dipoles s1 ! i))
                  (agedScale (aged ?dt (params s) (dipoles s1 ! i))) (matrixOffsetBlue s)"
            using ad2 i e1 rs ne sold[OF lt(2)] by simp
        next
          fix j assume j: "j \<notin> set (activeDipoleIndices s1)"
          show "slot s' r j = slot s r j" using un2 j sf(4)[OF j] sold[OF lt(1)] by (simp add: slot_def)
          show "slot s' b j = slot s b j" using un2 j sf(4)[OF j] sold[OF lt(2)] by (simp add: slot_def)
        qed
      qed
    qed
  qed
qed

lemma initial_worker_inv: "worker_inv initial_worker"
  by (simp add: worker_inv_def pool_inv_def pool_struct_def own_inv_iff offsets_inv_def
      initial_worker_def Mat4_create_def Mat4_makeTranslation_def)

lemma onInit_fields:
  "maxDipoles (onInit n ps off s) = n"
  "params (onInit n ps off s) = ps"
  "lobeOffset (onInit n ps off s) = off"
  "dipoles (onInit n ps off s) = map newDipole [0..<n]"
  "instanceIndices (onInit n ps off s) = [0..<n]"
  "activeDipoleIndices (onInit n ps off s) = []"
  "matrixOffsetRed (onInit n ps off s) = Mat4_makeTranslation 0 off 0"
  "matrixOffsetBlue (onInit n ps off s) = Mat4_makeTranslation 0 (- off) 0"
  "redMatricesBuffer (onInit n ps off s) = Some (nextBuffer s + 2)"
  "blueMatricesBuffer (onInit n ps off s) = Some (nextBuffer s + 3)"
  "nextBuffer (onInit n ps off s) = nextBuffer s + 4"
  "posted (onInit n ps off s) = posted s @ [(nextBuffer s, nextBuffer s + 1)]"
  "heap (onInit n ps off s) =
     (heap s)(nextBuffer s := replicate (n * 16) 0, nextBuffer s + 1 := replicate (n * 16) 0,
              nextBuffer s + 2 := replicate (n * 16) 0, nextBuffer s + 3 := replicate (n * 16) 0)"
  "simulationRunning (onInit n ps off s) = simulationRunning s"
  "lastTimestamp (onInit n ps off s) = lastTimestamp s"
  by (simp_all add: onInit_def newArrayBuffer_def Let_def numeral_3_eq_3 numeral_2_eq_2 mult.commute)

lemma step_worker_inv:
  assumes inv: "worker_inv s" and st: "step s e = Inr s'"
  shows "worker_inv s'"
proof (cases e)
  case (Init n ps off)
  with st have s': "s' = onInit n ps off s" by simp
  show ?thesis
    unfolding worker_inv_def s'
    by (simp add: onInit_pool_inv own_inv_iff offsets_inv_def onInit_fields)
next
  case (Frame ts rnd)
  with st have u: "updateSimulation ts rnd s = Inr s'" by simp
  from inv have p: "pool_inv s" and o: "own_inv s" and f: "offsets_inv s"
    by (simp_all add: worker_inv_def)
  from p have ps: "pool_struct s" by (simp add: pool_inv_def)
  have p': "pool_inv s'" using updateSimulation_pool_inv[OF p u] by simp
  show ?thesis
  proof (cases "simulationRunning s")
    case False
    with u inv show ?thesis by (simp add: updateSimulation_def)
  next
    case True
    from True u ps o show ?thesis
    proof (rule updateSimulation_effect)
      fix s1
      assume lo: "lobeOffset s' = lobeOffset s"
        and mr: "matrixOffsetRed s' = matrixOffsetRed s" "matrixOffsetBlue s' = matrixOffsetBlue s"
        and e0: "activeDipoleIndices s1 = [] \<Longrightarrow> s' = s\<lparr>lastTimestamp := ts\<rparr>"
        and e1: "activeDipoleIndices s1 \<noteq> [] \<Longrightarrow>
       \<exists>r b. redMatricesBuffer s = Some r \<and> blueMatricesBuffer s = Some b \<and> r \<noteq> b \<and>
         r < nextBuffer s \<and> b < nextBuffer s \<and>
         posted s' = posted s @ [(r, b)] \<and>
         redMatricesBuffer s' = Some (nextBuffer s) \<and>
         blueMatricesBuffer s' = Some (Suc (nextBuffer s)) \<and>
         nextBuffer s' = Suc (Suc (nextBuffer s)) \<and>
         heap s' (nextBuffer s) = replicate (maxDipoles s * 16) 0 \<and>
         heap s' (Suc (nextBuffer s)) = replicate (maxDipoles s * 16) 0 \<and>
         (\<forall>i\<in>set (activeDipoleIndices s1).
            slot s' r i = lobeMatrix (aged (deltaTime s ts) (params s) (dipoles s1 ! i))
                            (agedScale (aged (deltaTime s ts) (params s) (dipoles s1 ! i)))
                            (matrixOffsetRed s) \<and>
            slot s' b i = lobeMatrix (aged (deltaTime s ts) (params s) (dipoles s1 ! i))
                            (agedScale (aged (deltaTime s ts) (params s) (dipoles s1 ! i)))
                            (matrixOffsetBlue s)) \<and>
         (\<forall>j. j \<notin> set (activeDipoleIndices s1) \<longrightarrow>
            slot s' r j = slot s r j \<and> slot s' b j = slot s b j)"
      have "offsets_inv s'" using f lo mr by (simp add: offsets_inv_def)
      moreover have "own_inv s'"
      proof (cases "activeDipoleIndices s1 = []")
        case True
        with e0 o show ?thesis by (simp add: own_inv_iff)
      next
        case False
        from e1[OF False] show ?thesis by (auto simp: own_inv_iff)
      qed
      ultimately show ?thesis using p' by (simp add: worker_inv_def)
    qed
  qed
next
  case (ReturnBuffers r b)
  with st inv show ?thesis
    by (auto simp: worker_inv_def pool_inv_def pool_struct_def own_inv_iff offsets_inv_def
        onReturnBuffers_def)
qed (use st inv in \<open>auto simp: worker_inv_def pool_inv_def pool_struct_def own_inv_iff
        offsets_inv_def split: if_splits\<close>)

lemma run_worker_inv:
  "worker_inv s \<Longrightarrow> run s evs = Inr s' \<Longrightarrow> worker_inv s'"
proof (induction evs arbitrary: s)
  case Nil
  then show ?case by simp
next
  case (Cons e evs)
  from Cons.prems(2) obtain s1 where s1: "step s e = Inr s1" and r: "run s1 evs = Inr s'"
    by (auto split: sum.splits)
  from step_worker_inv[OF Cons.prems(1) s1] Cons.IH r show ?case by blast
qed

lemma reachable_inv: "run initial_worker evs = Inr s \<Longrightarrow> worker_inv s"
  using initial_worker_inv by (rule run_worker_inv)

subsection \<open>Spawning, ageing and ownership\<close>

text \<open>The active list after the spawn decision and after a tick; ticks that age no
  particle; blocks the worker does not hold; the unit quaternion of a new particle and
  the scale of a lobe matrix.\<close>


lemma advanceLoop_frame:
  "advanceLoop dt k (s, n) = Inr (s', n') \<Longrightarrow>
     sim_frame s s' \<and> set (activeDipoleIndices s') \<subseteq> set (activeDipoleIndices s) \<and>
     (k = 0 \<longrightarrow> s' = s)"
proof (induction k arbitrary: s n)
  case 0
  then show ?case by (simp add: sim_frame_refl)
next
  case (Suc k)
  from Suc.prems obtain s1 where s1: "advanceDipole dt k s = Inr s1"
    and rest: "advanceLoop dt k (s1, n + 1) = Inr (s', n')"
    by (auto split: sum.splits)
  from Suc.IH[OF rest] have f2: "sim_frame s1 s'"
    and sub2: "set (activeDipoleIndices s') \<subseteq> set (activeDipoleIndices s1)" by auto
  from s1 have "sim_frame s s1 \<and> set (activeDipoleIndices s1) \<subseteq> set (activeDipoleIndices s)"
  proof (rule advanceDipole_effect)
    fix r b
    assume "sim_frame s s1"
      and "activeDipoleIndices s1 =
       (if life (aged dt (params s) (dipoles s ! (activeDipoleIndices s ! k))) \<le> 0
        then take k (activeDipoleIndices s) @ drop (Suc k) (activeDipoleIndices s)
        else activeDipoleIndices s)"
    then show ?thesis
      by (auto split: if_splits dest: in_set_takeD in_set_dropD)
  qed
  with f2 sub2 show ?case by (auto intro: sim_frame_trans)
qed

lemma spawnDecision_active:
  assumes "spawnDecision dt rnd s = Inr s1"
  shows "activeDipoleIndices s1 =
      (if rnd 0 < creationProbability (params s) * dt \<and> instanceIndices s \<noteq> []
       then activeDipoleIndices s @ [last (instanceIndices s)] else activeDipoleIndices s)"
    and "instanceIndices s1 =
      (if rnd 0 < creationProbability (params s) * dt \<and> instanceIndices s \<noteq> []
       then butlast (instanceIndices s) else instanceIndices s)"
    and "\<not> (rnd 0 < creationProbability (params s) * dt \<and> instanceIndices s \<noteq> []) \<Longrightarrow> s1 = s"
  using assms
  by (cases rule: spawnDecision_cases; simp add: createDipole_pool)+

lemma updateSimulation_active_subset:
  assumes "simulationRunning s" "updateSimulation ts rnd s = Inr s'"
    "spawnDecision (deltaTime s ts) rnd (s\<lparr>lastTimestamp := ts\<rparr>) = Inr s1"
  shows "set (activeDipoleIndices s') \<subseteq> set (activeDipoleIndices s1)"
proof -
  obtain s1' s2 where
    sp: "spawnDecision (deltaTime s ts) rnd (s\<lparr>lastTimestamp := ts\<rparr>) = Inr s1'" and
    lp: "advanceLoop (deltaTime s ts) (length (activeDipoleIndices s1')) (s1', 0) =
           Inr (s2, length (activeDipoleIndices s1'))" and
    fin0: "activeDipoleIndices s1' = [] \<Longrightarrow> s' = s2" and
    fin1: "activeDipoleIndices s1' \<noteq> [] \<Longrightarrow> postMatrices s2 = Inr s'"
    by (rule updateSimulation_parts[OF assms(1,2)]) blast
  from sp assms(3) have eq: "s1' = s1" by simp
  from advanceLoop_frame[OF lp]
  have sub: "set (activeDipoleIndices s2) \<subseteq> set (activeDipoleIndices s1')" by simp
  have e: "activeDipoleIndices s' = activeDipoleIndices s2"
  proof (cases "activeDipoleIndices s1' = []")
    case True
    then show ?thesis using fin0 by simp
  next
    case False
    from fin1[OF False] show ?thesis by (rule postMatrices_effect)
  qed
  from e sub eq show ?thesis by simp
qed

lemma tick_active_subset:
  assumes "simulationRunning s" "updateSimulation ts rnd s = Inr s'"
  shows "set (activeDipoleIndices s') \<subseteq>
           set (activeDipoleIndices s) \<union> {last (instanceIndices s)}"
    and "\<not> spawnCondition ts rnd s \<Longrightarrow>
           set (activeDipoleIndices s') \<subseteq> set (activeDipoleIndices s)"
proof -
  obtain s1 s2 where
    sp: "spawnDecision (deltaTime s ts) rnd (s\<lparr>lastTimestamp := ts\<rparr>) = Inr s1" and
    lp: "advanceLoop (deltaTime s ts) (length (activeDipoleIndices s1)) (s1, 0) =
           Inr (s2, length (activeDipoleIndices s1))"
    by (rule updateSimulation_parts[OF assms]) blast
  note a1 = spawnDecision_active[OF sp]
  note sub = updateSimulation_active_subset[OF assms sp]
  show "set (activeDipoleIndices s') \<subseteq>
           set (activeDipoleIndices s) \<union> {last (instanceIndices s)}"
    using sub a1(1) by (auto split: if_splits)
  show "\<not> spawnCondition ts rnd s \<Longrightarrow>
           set (activeDipoleIndices s') \<subseteq> set (activeDipoleIndices s)"
    using sub a1(1) by (auto simp: spawnCondition_def split: if_splits)
qed

lemma pool_inv_life:
  "pool_inv s \<Longrightarrow> i < maxDipoles s \<Longrightarrow>
     (0 < life (dipoles s ! i)) = (i \<in> set (activeDipoleIndices s))"
  by (simp add: pool_inv_def)

lemma distinct_count_list_1: "distinct xs \<Longrightarrow> x \<in> set xs \<Longrightarrow> count_list xs x = 1"
  by (induction xs) auto

lemma spawnDecision_old:
  assumes sp: "spawnDecision dt rnd s = Inr s1" and st: "pool_struct s"
    and i: "i \<in> set (activeDipoleIndices s)"
  shows "i \<in> set (activeDipoleIndices s1)" "dipoles s1 ! i = dipoles s ! i"
proof -
  note a = spawnDecision_active[OF sp]
  show "i \<in> set (activeDipoleIndices s1)" using a(1) i by (simp split: if_splits)
  from sp show "dipoles s1 ! i = dipoles s ! i"
  proof (cases rule: spawnDecision_cases)
    case skip
    then show ?thesis by simp
  next
    case spawn
    have "last (instanceIndices s) \<in> set (instanceIndices s)" using spawn(2) by simp
    with st i have "i \<noteq> last (instanceIndices s)" by (auto simp: pool_struct_def)
    with createDipole_pool(6)[OF spawn(3) spawn(2)] show ?thesis by simp
  qed
qed

lemma spawnDecision_new:
  assumes sp: "spawnDecision dt rnd s = Inr s1"
    and c: "rnd 0 < creationProbability (params s) * dt" "instanceIndices s \<noteq> []"
  shows "last (instanceIndices s) \<in> set (activeDipoleIndices s1)"
    "life (dipoles s1 ! last (instanceIndices s)) = dipoleLifetime (params s) * (0.8 + rnd 1 * 0.4)"
proof -
  from sp c have cd: "createDipole (\<lambda>k. rnd (Suc k)) s = Inr s1"
    by (simp add: spawnDecision_def)
  from cd c(2) show "last (instanceIndices s) \<in> set (activeDipoleIndices s1)"
    by (rule createDipole_effect) simp
  from cd c(2) show "life (dipoles s1 ! last (instanceIndices s)) =
      dipoleLifetime (params s) * (0.8 + rnd 1 * 0.4)"
    by (rule createDipole_effect) simp
qed


lemma lobeMatrix_zero:
  "lobeMatrix d 0 (Mat4_makeTranslation x y z) =
     [0,0,0,0, 0,0,0,0, 0,0,0,0, vx (position d), vy (position d), vz (position d), 1]"
  by (simp add: lobeMatrix_def Mat4_multiply_def Mat4_column_def Mat4_compose_def
      Mat4_makeTranslation_def Vec3_set_def Let_def)


lemma advanceLoop_all_alive:
  assumes "pool_struct s" "k \<le> length (activeDipoleIndices s)"
    "advanceLoop dt k (s, n) = Inr (s', n')"
    "\<forall>i\<in>set (take k (activeDipoleIndices s)). 0 < life (dipoles s ! i) - dt * speed (params s)"
  shows "activeDipoleIndices s' = activeDipoleIndices s \<and> instanceIndices s' = instanceIndices s"
  using assms
proof (induction k arbitrary: s n)
  case 0
  then show ?case by simp
next
  case (Suc k)
  let ?act = "activeDipoleIndices s"
  let ?a = "?act ! k"
  from Suc.prems(3) obtain s1 where s1: "advanceDipole dt k s = Inr s1"
    and rest: "advanceLoop dt k (s1, n + 1) = Inr (s', n')"
    by (auto split: sum.splits)
  have st1: "pool_struct s1" using Suc.prems(1) s1 by (rule advanceDipole_struct)
  have klt: "k < length ?act" using Suc.prems(2) by simp
  have dact: "distinct ?act" using Suc.prems(1) by (simp add: pool_struct_def)
  have tk: "take (Suc k) ?act = take k ?act @ [?a]"
    using klt by (simp add: take_Suc_conv_app_nth)
  have a_alive: "0 < life (dipoles s ! ?a) - dt * speed (params s)"
    using Suc.prems(4) tk by simp
  have a_notin: "?a \<notin> set (take k ?act)"
    using dact klt tk by (metis distinct_take distinct_append disjoint_insert(1) list.simps(15) distinct.simps(2) not_distinct_conv_prefix)
  from s1 show ?case
  proof (rule advanceDipole_effect)
    fix r b
    assume fr: "sim_frame s s1"
      and ds: "dipoles s1 = (dipoles s)[?a := settled (aged dt (params s) (dipoles s ! ?a))]"
      and fs: "instanceIndices s1 =
         (if life (aged dt (params s) (dipoles s ! ?a)) \<le> 0
          then instanceIndices s @ [instanceIndex (aged dt (params s) (dipoles s ! ?a))]
          else instanceIndices s)"
      and ac: "activeDipoleIndices s1 =
         (if life (aged dt (params s) (dipoles s ! ?a)) \<le> 0
          then take k ?act @ drop (Suc k) ?act else ?act)"
    have e: "activeDipoleIndices s1 = ?act" "instanceIndices s1 = instanceIndices s"
      using ac fs a_alive by simp_all
    have pr: "params s1 = params s" using fr by (simp add: sim_frame_def)
    have k1: "k \<le> length (activeDipoleIndices s1)" using e klt by simp
    have al1: "\<forall>i\<in>set (take k (activeDipoleIndices s1)).
        0 < life (dipoles s1 ! i) - dt * speed (params s1)"
    proof
      fix i assume i: "i \<in> set (take k (activeDipoleIndices s1))"
      then have it: "i \<in> set (take k ?act)" using e by simp
      then have "i \<noteq> ?a" using a_notin by auto
      then have "dipoles s1 ! i = dipoles s ! i" using ds by simp
      moreover have "0 < life (dipoles s ! i) - dt * speed (params s)"
        using Suc.prems(4) it tk by simp
      ultimately show "0 < life (dipoles s1 ! i) - dt * speed (params s1)" using pr by simp
    qed
    from Suc.IH[OF st1 k1 rest al1] e show ?thesis by simp
  qed
qed

lemma still_tick:
  assumes inv: "worker_inv s" and running: "simulationRunning s"
    and tick: "updateSimulation ts rnd s = Inr s'"
    and draw: "0 \<le> rnd 0" and dt: "deltaTime s ts = 0"
  shows "activeDipoleIndices s' = activeDipoleIndices s"
    "instanceIndices s' = instanceIndices s"
    "map life (dipoles s') = map life (dipoles s)"
    "lastTimestamp s' = ts"
proof -
  let ?s0 = "s\<lparr>lastTimestamp := ts\<rparr>"
  from inv have p: "pool_inv s" and o: "own_inv s" by (simp_all add: worker_inv_def)
  from p have ps: "pool_struct s" by (simp add: pool_inv_def)
  have st0: "pool_struct ?s0" using ps by (simp add: pool_struct_def)
  obtain s1 s2 where
    sp: "spawnDecision (deltaTime s ts) rnd ?s0 = Inr s1" and
    lp: "advanceLoop (deltaTime s ts) (length (activeDipoleIndices s1)) (s1, 0) =
           Inr (s2, length (activeDipoleIndices s1))" and
    fin0: "activeDipoleIndices s1 = [] \<Longrightarrow> s' = s2" and
    fin1: "activeDipoleIndices s1 \<noteq> [] \<Longrightarrow> postMatrices s2 = Inr s'"
    by (rule updateSimulation_parts[OF running tick]) blast
  have "\<not> (rnd 0 < creationProbability (params ?s0) * deltaTime s ts \<and> instanceIndices ?s0 \<noteq> [])"
    using draw dt by simp
  from spawnDecision_active(3)[OF sp this] have s1: "s1 = ?s0" .
  have alive: "\<forall>i\<in>set (take (length (activeDipoleIndices s1)) (activeDipoleIndices s1)).
      0 < life (dipoles s1 ! i) - deltaTime s ts * speed (params s1)"
  proof
    fix i assume "i \<in> set (take (length (activeDipoleIndices s1)) (activeDipoleIndices s1))"
    then have i: "i \<in> set (activeDipoleIndices s)" using s1 by simp
    with ps have "i < maxDipoles s" by (auto simp: pool_struct_def)
    from pool_inv_life[OF p this] i dt s1
    show "0 < life (dipoles s1 ! i) - deltaTime s ts * speed (params s1)" by simp
  qed
  have st1: "pool_struct s1" using st0 s1 by simp
  from advanceLoop_all_alive[OF st1 order_refl lp alive] s1
  have l2: "activeDipoleIndices s2 = activeDipoleIndices s" "instanceIndices s2 = instanceIndices s"
    by simp_all
  have e: "activeDipoleIndices s' = activeDipoleIndices s2 \<and> instanceIndices s' = instanceIndices s2"
  proof (cases "activeDipoleIndices s1 = []")
    case True
    then show ?thesis using fin0 by simp
  next
    case False
    from fin1[OF False] show ?thesis by (rule postMatrices_effect) simp
  qed
  from e l2 show "activeDipoleIndices s' = activeDipoleIndices s"
    "instanceIndices s' = instanceIndices s" by simp_all
  from running tick ps o show "map life (dipoles s') = map life (dipoles s)"
  proof (rule updateSimulation_effect)
    fix s1'
    assume sp': "spawnDecision (deltaTime s ts) rnd ?s0 = Inr s1'"
      and st': "pool_struct s'" and m': "maxDipoles s' = maxDipoles s"
      and ad: "\<And>i. i \<in> set (activeDipoleIndices s1') \<Longrightarrow>
         dipoles s' ! i = settled (aged (deltaTime s ts) (params s) (dipoles s1' ! i))"
      and un: "\<And>j. j \<notin> set (activeDipoleIndices s1') \<Longrightarrow> dipoles s' ! j = dipoles s ! j"
    from sp sp' s1 have s1': "s1' = ?s0" by simp
    have len: "length (dipoles s') = length (dipoles s)"
      using st' ps m' by (simp add: pool_struct_def)
    have "\<And>i. i < length (dipoles s) \<Longrightarrow> life (dipoles s' ! i) = life (dipoles s ! i)"
    proof -
      fix i assume il: "i < length (dipoles s)"
      show "life (dipoles s' ! i) = life (dipoles s ! i)"
      proof (cases "i \<in> set (activeDipoleIndices s1')")
        case True
        then have i: "i \<in> set (activeDipoleIndices s)" using s1' by simp
        from il ps have "i < maxDipoles s" by (simp add: pool_struct_def)
        from pool_inv_life[OF p this] i have "0 < life (dipoles s ! i)" by simp
        with ad[OF True] s1' dt show ?thesis by simp
      next
        case False
        with un show ?thesis by simp
      qed
    qed
    with len show ?thesis by (simp add: list_eq_iff_nth_eq)
  qed
  from running tick ps o show "lastTimestamp s' = ts"
    by (rule updateSimulation_effect)
qed

lemma still_run:
  assumes "worker_inv s" "0 < lastTimestamp s" "\<forall>rnd\<in>set rnds. 0 \<le> rnd 0"
    "run s (map (Frame (lastTimestamp s)) rnds) = Inr s'"
  shows "activeDipoleIndices s' = activeDipoleIndices s \<and>
    instanceIndices s' = instanceIndices s \<and>
    map life (dipoles s') = map life (dipoles s)"
  using assms
proof (induction rnds arbitrary: s)
  case Nil
  then show ?case by simp
next
  case (Cons rnd rnds)
  let ?ts = "lastTimestamp s"
  from Cons.prems(4) obtain s1 where t: "updateSimulation ?ts rnd s = Inr s1"
    and r: "run s1 (map (Frame ?ts) rnds) = Inr s'"
    by (auto split: sum.splits)
  have inv1: "worker_inv s1" using step_worker_inv[OF Cons.prems(1), of "Frame ?ts rnd" s1] t by simp
  have dt: "deltaTime s ?ts = 0" using Cons.prems(2) by (simp add: deltaTime_def)
  have draw: "0 \<le> rnd 0" using Cons.prems(3) by simp
  have same: "activeDipoleIndices s1 = activeDipoleIndices s \<and>
    instanceIndices s1 = instanceIndices s \<and>
    map life (dipoles s1) = map life (dipoles s) \<and> lastTimestamp s1 = ?ts"
  proof (cases "simulationRunning s")
    case True
    from still_tick[OF Cons.prems(1) True t draw dt] show ?thesis by simp
  next
    case False
    with t show ?thesis by (simp add: updateSimulation_def)
  qed
  then have ts1: "lastTimestamp s1 = ?ts" by simp
  have "activeDipoleIndices s' = activeDipoleIndices s1 \<and>
    instanceIndices s' = instanceIndices s1 \<and>
    map life (dipoles s') = map life (dipoles s1)"
    using Cons.IH[OF inv1, unfolded ts1] Cons.prems(2,3) r by simp
  with same show ?case by simp
qed

lemma step_foreign:
  assumes inv: "worker_inv s" and st: "step s e = Inr s'"
    and k: "k < nextBuffer s" "Some k \<noteq> redMatricesBuffer s" "Some k \<noteq> blueMatricesBuffer s"
    and nr: "\<not> returns k e"
  shows "heap s' k = heap s k \<and> k < nextBuffer s' \<and>
    Some k \<noteq> redMatricesBuffer s' \<and> Some k \<noteq> blueMatricesBuffer s' \<and>
    (\<exists>zs. posted s' = posted s @ zs \<and> (\<forall>p\<in>set zs. fst p \<noteq> k \<and> snd p \<noteq> k))"
proof (cases e)
  case (Init n ps off)
  with st have s': "s' = onInit n ps off s" by simp
  show ?thesis using k by (simp add: s' onInit_fields)
next
  case (Frame ts rnd)
  with st have u: "updateSimulation ts rnd s = Inr s'" by simp
  from inv have p: "pool_inv s" and o: "own_inv s" by (simp_all add: worker_inv_def)
  from p have ps: "pool_struct s" by (simp add: pool_inv_def)
  show ?thesis
  proof (cases "simulationRunning s")
    case False
    with u k show ?thesis by (simp add: updateSimulation_def)
  next
    case True
    from True u ps o show ?thesis
    proof (rule updateSimulation_effect)
      fix s1
      assume ho: "\<And>c. c < nextBuffer s \<Longrightarrow> Some c \<noteq> redMatricesBuffer s \<Longrightarrow>
           Some c \<noteq> blueMatricesBuffer s \<Longrightarrow> heap s' c = heap s c"
        and e0: "activeDipoleIndices s1 = [] \<Longrightarrow> s' = s\<lparr>lastTimestamp := ts\<rparr>"
        and e1: "activeDipoleIndices s1 \<noteq> [] \<Longrightarrow>
       \<exists>r b. redMatricesBuffer s = Some r \<and> blueMatricesBuffer s = Some b \<and> r \<noteq> b \<and>
         r < nextBuffer s \<and> b < nextBuffer s \<and>
         posted s' = posted s @ [(r, b)] \<and>
         redMatricesBuffer s' = Some (nextBuffer s) \<and>
         blueMatricesBuffer s' = Some (Suc (nextBuffer s)) \<and>
         nextBuffer s' = Suc (Suc (nextBuffer s)) \<and>
         heap s' (nextBuffer s) = replicate (maxDipoles s * 16) 0 \<and>
         heap s' (Suc (nextBuffer s)) = replicate (maxDipoles s * 16) 0 \<and>
         (\<forall>i\<in>set (activeDipoleIndices s1).
            slot s' r i = lobeMatrix (aged (deltaTime s ts) (params s) (dipoles s1 ! i))
                            (agedScale (aged (deltaTime s ts) (params s) (dipoles s1 ! i)))
                            (matrixOffsetRed s) \<and>
            slot s' b i = lobeMatrix (aged (deltaTime s ts) (params s) (dipoles s1 ! i))
                            (agedScale (aged (deltaTime s ts) (params s) (dipoles s1 ! i)))
                            (matrixOffsetBlue s)) \<and>
         (\<forall>j. j \<notin> set (activeDipoleIndices s1) \<longrightarrow>
            slot s' r j = slot s r j \<and> slot s' b j = slot s b j)"
      have h: "heap s' k = heap s k" using ho k by simp
      show ?thesis
      proof (cases "activeDipoleIndices s1 = []")
        case True
        with e0 k show ?thesis by simp
      next
        case False
        from e1[OF False] obtain r b where
          rb: "redMatricesBuffer s = Some r" "blueMatricesBuffer s = Some b"
          and po: "posted s' = posted s @ [(r, b)]"
          and n: "redMatricesBuffer s' = Some (nextBuffer s)"
            "blueMatricesBuffer s' = Some (Suc (nextBuffer s))"
            "nextBuffer s' = Suc (Suc (nextBuffer s))"
          by blast
        have "\<forall>p\<in>set [(r, b)]. fst p \<noteq> k \<and> snd p \<noteq> k" using rb k by auto
        with po have "\<exists>zs. posted s' = posted s @ zs \<and> (\<forall>p\<in>set zs. fst p \<noteq> k \<and> snd p \<noteq> k)"
          by blast
        with h n k show ?thesis by simp
      qed
    qed
  qed
next
  case (ReturnBuffers r b)
  with st k nr show ?thesis by (auto simp: onReturnBuffers_def)
qed (use st k in \<open>auto split: if_splits\<close>)

lemma run_foreign:
  assumes "worker_inv s" "run s evs = Inr s'"
    "k < nextBuffer s" "Some k \<noteq> redMatricesBuffer s" "Some k \<noteq> blueMatricesBuffer s"
    "\<forall>e\<in>set evs. \<not> returns k e"
  shows "heap s' k = heap s k \<and> k < nextBuffer s' \<and>
    Some k \<noteq> redMatricesBuffer s' \<and> Some k \<noteq> blueMatricesBuffer s' \<and>
    (\<exists>zs. posted s' = posted s @ zs \<and> (\<forall>p\<in>set zs. fst p \<noteq> k \<and> snd p \<noteq> k))"
  using assms
proof (induction evs arbitrary: s)
  case Nil
  then show ?case by simp
next
  case (Cons e evs)
  from Cons.prems(2) obtain s1 where s1: "step s e = Inr s1" and r: "run s1 evs = Inr s'"
    by (auto split: sum.splits)
  have ne: "\<not> returns k e" and nes: "\<forall>e\<in>set evs. \<not> returns k e" using Cons.prems(6) by simp_all
  from step_foreign[OF Cons.prems(1) s1 Cons.prems(3,4,5) ne]
  have a: "heap s1 k = heap s k" "k < nextBuffer s1" "Some k \<noteq> redMatricesBuffer s1"
    "Some k \<noteq> blueMatricesBuffer s1"
    and z1: "\<exists>zs. posted s1 = posted s @ zs \<and> (\<forall>p\<in>set zs. fst p \<noteq> k \<and> snd p \<noteq> k)"
    by simp_all
  have inv1: "worker_inv s1" using step_worker_inv[OF Cons.prems(1) s1] .
  from Cons.IH[OF inv1 r a(2,3,4) nes]
  have b: "heap s' k = heap s1 k" "k < nextBuffer s'" "Some k \<noteq> redMatricesBuffer s'"
    "Some k \<noteq> blueMatricesBuffer s'"
    and z2: "\<exists>zs. posted s' = posted s1 @ zs \<and> (\<forall>p\<in>set zs. fst p \<noteq> k \<and> snd p \<noteq> k)"
    by simp_all
  from z1 obtain zs1 where zs1: "posted s1 = posted s @ zs1"
    "\<forall>p\<in>set zs1. fst p \<noteq> k \<and> snd p \<noteq> k" by blast
  from z2 obtain zs2 where zs2: "posted s' = posted s1 @ zs2"
    "\<forall>p\<in>set zs2. fst p \<noteq> k \<and> snd p \<noteq> k" by blast
  have "posted s' = posted s @ (zs1 @ zs2)" using zs1(1) zs2(1) by simp
  moreover have "\<forall>p\<in>set (zs1 @ zs2). fst p \<noteq> k \<and> snd p \<noteq> k"
    using zs1(2) zs2(2) by auto
  ultimately have "\<exists>zs. posted s' = posted s @ zs \<and> (\<forall>p\<in>set zs. fst p \<noteq> k \<and> snd p \<noteq> k)"
    by blast
  with a b show ?case by simp
qed

lemma posting_step:
  assumes inv: "worker_inv s" and st: "step s e = Inr s1"
    and po: "posted s1 = posted s @ [(r, b)]"
  shows "r < nextBuffer s1 \<and> b < nextBuffer s1 \<and>
    (\<exists>r' b'. redMatricesBuffer s1 = Some r' \<and> blueMatricesBuffer s1 = Some b' \<and>
       r' \<noteq> b' \<and> r' \<noteq> r \<and> r' \<noteq> b \<and> b' \<noteq> r \<and> b' \<noteq> b \<and>
       nextBuffer s \<le> r' \<and> nextBuffer s \<le> b' \<and>
       heap s1 r' = replicate (maxDipoles s1 * 16) 0 \<and>
       heap s1 b' = replicate (maxDipoles s1 * 16) 0)"
proof (cases e)
  case (Init n ps off)
  with st have s': "s1 = onInit n ps off s" by simp
  from po show ?thesis by (simp add: s' onInit_fields)
next
  case (Frame ts rnd)
  with st have u: "updateSimulation ts rnd s = Inr s1" by simp
  from inv have p: "pool_inv s" and o: "own_inv s" by (simp_all add: worker_inv_def)
  from p have ps: "pool_struct s" by (simp add: pool_inv_def)
  have running: "simulationRunning s"
  proof (rule ccontr)
    assume "\<not> simulationRunning s"
    with u have "s1 = s" by (simp add: updateSimulation_def)
    with po show False by simp
  qed
  from running u ps o show ?thesis
  proof (rule updateSimulation_effect)
    fix s0
    assume m: "maxDipoles s1 = maxDipoles s"
      and e0: "activeDipoleIndices s0 = [] \<Longrightarrow> s1 = s\<lparr>lastTimestamp := ts\<rparr>"
      and e1: "activeDipoleIndices s0 \<noteq> [] \<Longrightarrow>
       \<exists>r b. redMatricesBuffer s = Some r \<and> blueMatricesBuffer s = Some b \<and> r \<noteq> b \<and>
         r < nextBuffer s \<and> b < nextBuffer s \<and>
         posted s1 = posted s @ [(r, b)] \<and>
         redMatricesBuffer s1 = Some (nextBuffer s) \<and>
         blueMatricesBuffer s1 = Some (Suc (nextBuffer s)) \<and>
         nextBuffer s1 = Suc (Suc (nextBuffer s)) \<and>
         heap s1 (nextBuffer s) = replicate (maxDipoles s * 16) 0 \<and>
         heap s1 (Suc (nextBuffer s)) = replicate (maxDipoles s * 16) 0 \<and>
         (\<forall>i\<in>set (activeDipoleIndices s0).
            slot s1 r i = lobeMatrix (aged (deltaTime s ts) (params s) (dipoles s0 ! i))
                            (agedScale (aged (deltaTime s ts) (params s) (dipoles s0 ! i)))
                            (matrixOffsetRed s) \<and>
            slot s1 b i = lobeMatrix (aged (deltaTime s ts) (params s) (dipoles s0 ! i))
                            (agedScale (aged (deltaTime s ts) (params s) (dipoles s0 ! i)))
                            (matrixOffsetBlue s)) \<and>
         (\<forall>j. j \<notin> set (activeDipoleIndices s0) \<longrightarrow>
            slot s1 r j = slot s r j \<and> slot s1 b j = slot s b j)"
    have ne: "activeDipoleIndices s0 \<noteq> []"
    proof
      assume "activeDipoleIndices s0 = []"
      from e0[OF this] po show False by simp
    qed
    from e1[OF ne] obtain r0 b0 where
      lt: "r0 < nextBuffer s" "b0 < nextBuffer s"
      and po': "posted s1 = posted s @ [(r0, b0)]"
      and n: "redMatricesBuffer s1 = Some (nextBuffer s)"
        "blueMatricesBuffer s1 = Some (Suc (nextBuffer s))"
        "nextBuffer s1 = Suc (Suc (nextBuffer s))"
        "heap s1 (nextBuffer s) = replicate (maxDipoles s * 16) 0"
        "heap s1 (Suc (nextBuffer s)) = replicate (maxDipoles s * 16) 0"
      by blast
    from po po' have "r0 = r" "b0 = b" by simp_all
    with lt n m show ?thesis by simp
  qed
qed (use st po in \<open>auto simp: onReturnBuffers_def split: if_splits\<close>)








subsection \<open>A tick does not throw\<close>

text \<open>With the pool in order and write buffers of the full size, every store is in
  range and the post is accepted: \<open>updateSimulation\<close> returns a state.\<close>

lemma buffers_okE:
  assumes "buffers_ok s"
  obtains r b where "redMatricesBuffer s = Some r" "blueMatricesBuffer s = Some b" "r \<noteq> b"
    "length (heap s r) = maxDipoles s * 16" "length (heap s b) = maxDipoles s * 16"
  using assms unfolding buffers_ok_def by (auto split: option.splits)

lemma buffers_ok_frame:
  assumes "buffers_ok s" "sim_frame s s'" "\<And>c. length (heap s' c) = length (heap s c)"
  shows "buffers_ok s'"
  using assms unfolding buffers_ok_def sim_frame_def by (auto split: option.splits)

lemma updateInstanceMatrix_succeeds:
  assumes ok: "buffers_ok s" and i: "instanceIndex d < maxDipoles s"
  shows "\<exists>s'. updateInstanceMatrix d sc s = Inr s'"
proof -
  from ok obtain r b where rb: "redMatricesBuffer s = Some r" "blueMatricesBuffer s = Some b"
    and len: "length (heap s r) = maxDipoles s * 16" "length (heap s b) = maxDipoles s * 16"
    by (rule buffers_okE)
  have fit: "instanceIndex d * 16 + 16 \<le> maxDipoles s * 16" using i by simp
  show ?thesis
    using rb len fit
    by (auto simp: updateInstanceMatrix_def Float32Array_set_def Let_def)
qed

lemma updateInstanceMatrix_pool_succeeds:
  assumes ok: "buffers_ok s" and i: "instanceIndex d < maxDipoles s"
  shows "\<exists>s'. updateInstanceMatrix d sc
           (s\<lparr>instanceIndices := fr, activeDipoleIndices := ac, dipoles := ds\<rparr>) = Inr s'"
proof -
  have "buffers_ok (s\<lparr>instanceIndices := fr, activeDipoleIndices := ac, dipoles := ds\<rparr>)"
    using ok by (auto simp: buffers_ok_def split: option.splits)
  moreover have "instanceIndex d <
      maxDipoles (s\<lparr>instanceIndices := fr, activeDipoleIndices := ac, dipoles := ds\<rparr>)"
    using i by simp
  ultimately show ?thesis by (rule updateInstanceMatrix_succeeds)
qed

lemma updateInstanceMatrix_dipoles_succeeds:
  assumes ok: "buffers_ok s" and i: "instanceIndex d < maxDipoles s"
  shows "\<exists>s'. updateInstanceMatrix d sc (s\<lparr>dipoles := ds\<rparr>) = Inr s'"
proof -
  have "buffers_ok (s\<lparr>dipoles := ds\<rparr>)"
    using ok by (auto simp: buffers_ok_def split: option.splits)
  moreover have "instanceIndex d < maxDipoles (s\<lparr>dipoles := ds\<rparr>)"
    using i by simp
  ultimately show ?thesis by (rule updateInstanceMatrix_succeeds)
qed

lemma createDipole_succeeds:
  assumes ok: "buffers_ok s" and st: "pool_struct s"
  shows "\<exists>s'. createDipole r s = Inr s'"
proof (cases "instanceIndices s = []")
  case True
  then show ?thesis by (simp add: createDipole_def)
next
  case False
  let ?x = "last (instanceIndices s)"
  have "?x \<in> set (instanceIndices s)" using False by simp
  with st have x: "?x < maxDipoles s" and len: "length (dipoles s) = maxDipoles s"
    by (auto simp: pool_struct_def)
  show ?thesis
    unfolding createDipole_def Let_def
    using False x len updateInstanceMatrix_pool_succeeds[OF ok]
    by simp
qed

lemma advanceDipole_succeeds:
  assumes ok: "buffers_ok s" and st: "pool_struct s" and i: "i < length (activeDipoleIndices s)"
  shows "\<exists>s'. advanceDipole dt i s = Inr s'"
proof -
  let ?a = "activeDipoleIndices s ! i"
  have "?a \<in> set (activeDipoleIndices s)" using i by simp
  with st have a: "?a < maxDipoles s" and len: "length (dipoles s) = maxDipoles s"
    and idx: "instanceIndex (dipoles s ! ?a) = ?a"
    by (auto simp: pool_struct_def)
  let ?d1 = "(dipoles s ! ?a)\<lparr>life := life (dipoles s ! ?a) - dt * speed (params s)\<rparr>"
  show ?thesis
  proof (cases "life ?d1 \<le> 0")
    case True
    have "instanceIndex ?d1 < maxDipoles s" using a idx by simp
    from updateInstanceMatrix_dipoles_succeeds[OF ok this] obtain s2 where
      "updateInstanceMatrix ?d1 0 (s\<lparr>dipoles := (dipoles s)[?a := ?d1]\<rparr>) = Inr s2"
      by blast
    with True i a len show ?thesis
      unfolding advanceDipole_def Let_def by simp
  next
    case False
    let ?d2 = "?d1\<lparr>quaternion := Quat_multiply
        (Quat_setFromAxisAngle (axis ?d1) (dt * spinSpeed (params s))) (quaternion ?d1)\<rparr>"
    have "instanceIndex ?d2 < maxDipoles s" using a idx by simp
    from updateInstanceMatrix_dipoles_succeeds[OF ok this] obtain s2 where
      "updateInstanceMatrix ?d2
         (sin ((maxLife ?d1 - life ?d1) / maxLife ?d1 * pi) * maxScale ?d1)
         (s\<lparr>dipoles := (dipoles s)[?a := ?d2]\<rparr>) = Inr s2"
      by blast
    with False i a len show ?thesis
      unfolding advanceDipole_def Let_def by simp
  qed
qed

lemma advanceLoop_succeeds:
  assumes "buffers_ok s" "pool_struct s" "k \<le> length (activeDipoleIndices s)"
  shows "\<exists>r. advanceLoop dt k (s, n) = Inr r"
  using assms
proof (induction k arbitrary: s n)
  case 0
  then show ?case by simp
next
  case (Suc k)
  have klt: "k < length (activeDipoleIndices s)" using Suc.prems(3) by simp
  from advanceDipole_succeeds[OF Suc.prems(1,2) klt] obtain s1 where
    s1: "advanceDipole dt k s = Inr s1" by blast
  have st1: "pool_struct s1" using Suc.prems(2) s1 by (rule advanceDipole_struct)
  from s1 have "buffers_ok s1 \<and> k \<le> length (activeDipoleIndices s1)"
  proof (rule advanceDipole_effect)
    fix r b
    assume fr: "sim_frame s s1" and hl: "\<And>c. length (heap s1 c) = length (heap s c)"
      and ac: "activeDipoleIndices s1 =
       (if life (aged dt (params s) (dipoles s ! (activeDipoleIndices s ! k))) \<le> 0
        then take k (activeDipoleIndices s) @ drop (Suc k) (activeDipoleIndices s)
        else activeDipoleIndices s)"
    have "buffers_ok s1" using Suc.prems(1) fr hl by (rule buffers_ok_frame)
    moreover have "k \<le> length (activeDipoleIndices s1)"
      using ac klt by (simp split: if_splits)
    ultimately show ?thesis by simp
  qed
  with Suc.IH[OF _ st1, of "n + 1"] obtain r where "advanceLoop dt k (s1, n + 1) = Inr r"
    by blast
  with s1 show ?case by simp
qed

lemma updateSimulation_succeeds:
  assumes ok: "buffers_ok s" and st: "pool_struct s"
  shows "\<exists>s'. updateSimulation ts rnd s = Inr s'"
proof (cases "simulationRunning s")
  case False
  then show ?thesis by (simp add: updateSimulation_def)
next
  case True
  let ?s0 = "s\<lparr>lastTimestamp := ts\<rparr>"
  let ?dt = "deltaTime s ts"
  have ok0: "buffers_ok ?s0" using ok by (auto simp: buffers_ok_def split: option.splits)
  have st0: "pool_struct ?s0" using st by (simp add: pool_struct_def)
  from createDipole_succeeds[OF ok0 st0] have "\<exists>s1. spawnDecision ?dt rnd ?s0 = Inr s1"
    by (simp add: spawnDecision_def Let_def)
  then obtain s1 where sp: "spawnDecision ?dt rnd ?s0 = Inr s1" by blast
  have st1: "pool_struct s1" using st0 sp by (rule spawnDecision_struct)
  note sf = spawnDecision_frame[OF sp]
  have ok1: "buffers_ok s1" using ok0 sf(1) sf(2) by (rule buffers_ok_frame)
  from advanceLoop_succeeds[OF ok1 st1 order_refl, of ?dt 0] obtain s2 n where
    lp: "advanceLoop ?dt (length (activeDipoleIndices s1)) (s1, 0) = Inr (s2, n)"
    by (metis surj_pair)
  note le = advanceLoop_effect[OF st1 order_refl lp]
  from le have f12: "sim_frame s1 s2"
    and hl2: "\<forall>c. length (heap s2 c) = length (heap s1 c)" by blast+
  from hl2 have hl2': "\<And>c. length (heap s2 c) = length (heap s1 c)" by simp
  have ok2: "buffers_ok s2" using ok1 f12 hl2' by (rule buffers_ok_frame)
  from ok2 have "\<exists>s'. postMatrices s2 = Inr s'"
    by (rule buffers_okE) (simp add: postMatrices_def newArrayBuffer_def Let_def)
  then have "\<exists>s'. (if n > 0 then postMatrices s2 else Inr s2) = Inr s'" by simp
  with True sp lp show ?thesis
    unfolding updateSimulation_def Let_def by simp
qed

subsection \<open>Evaluating concrete runs\<close>

text \<open>The defining equations that evaluate the model on the concrete inputs, and the
  states of the concrete runs.\<close>

lemmas math_defs = Vec3_create_def Vec3_set_def Vec3_normalize_def Quat_create_def
  Quat_setFromAxisAngle_def Quat_multiply_def Quat_setFromEuler_def Mat4_create_def
  Mat4_compose_def Mat4_column_def Mat4_multiply_def Mat4_makeTranslation_def

lemmas worker_defs = initial_worker_def initial_params_def newArrayBuffer_def
  Float32Array_set_def updateInstanceMatrix_def createDipole_def deltaTime_def
  spawnDecision_def advanceDipole_def postMatrices_def updateSimulation_def
  mergeParams_def newDipole_def onInit_def onReturnBuffers_def Let_def

lemmas demo_defs = demo_params_def demo_draws_def half_draws_def spread_draws_def
  demo_events_def spawn_events_def fast_patch_def dying_events_def reinit_events_def
  recycle_events_def unreturned_events_def

lemmas eval_defs = demo_defs worker_defs math_defs

lemma run_single: "run s [Frame ts rnd] = updateSimulation ts rnd s"
  by (cases "updateSimulation ts rnd s") simp_all

lemma demo_started_eq:
  "demo_started = (onInit 2 demo_params (9/100) initial_worker)
      \<lparr>simulationRunning := True, lastTimestamp := 1000\<rparr>"
  by (simp add: demo_started_def onInit_fields initial_worker_def)

lemma spawned_run: "run initial_worker spawn_events = Inr spawned_state"
  by (simp add: spawned_state_def eval_defs)

lemma spawned_state_fields:
  "simulationRunning spawned_state"
  "activeDipoleIndices spawned_state = [0]"
  "instanceIndices spawned_state = []"
  "lastTimestamp spawned_state = 1016"
  "speed (params spawned_state) = 1"
  "creationProbability (params spawned_state) = 400"
  "life (dipoles spawned_state ! 0) = 498/125"
  "maxLife (dipoles spawned_state ! 0) = 4"
  "posted spawned_state = [(0, 1), (2, 3)]"
  by (simp_all add: spawned_state_def eval_defs)

lemma dying_run: "run initial_worker dying_events = Inr dying_state"
  by (simp add: dying_state_def eval_defs)

lemma dying_state_fields:
  "simulationRunning dying_state"
  "activeDipoleIndices dying_state = [0]"
  "instanceIndices dying_state = []"
  "lastTimestamp dying_state = 1016"
  "speed (params dying_state) = 1000"
  "life (dipoles dying_state ! 0) = 498/125"
  "posted dying_state = [(0, 1), (2, 3)]"
  by (simp_all add: dying_state_def eval_defs)

section \<open>The properties of the specification\<close>



text \<open>
  C2 (buffer ownership), as amended. After every \<^verbatim>\<open>matricesUpdate\<close> post (the one
  of \<^verbatim>\<open>init\<close> and the one of a publishing tick) the worker writes to a new
  pair of buffers of \<open>maxDipoles * 16 * 4\<close> bytes each, allocated after every block that
  existed before the event, and the contents of the transferred pair stay as they were
  through every later event for as long as no \<^verbatim>\<open>returnBuffers\<close> message hands
  one of its buffers back. (Once handed back, the pair is the write pair again.)
\<close>

theorem buffer_ownership:
  assumes reach: "run initial_worker evs = Inr s"
    and st: "step s e = Inr s1"
    and po: "posted s1 = posted s @ [(r, b)]"
    and later: "run s1 evs' = Inr s2"
    and held: "\<forall>e'\<in>set evs'. \<not> returns r e' \<and> \<not> returns b e'"
  shows "heap s2 r = heap s1 r \<and> heap s2 b = heap s1 b \<and>
    (\<exists>r' b'. redMatricesBuffer s1 = Some r' \<and> blueMatricesBuffer s1 = Some b' \<and>
       r' \<noteq> b' \<and> r' \<noteq> r \<and> r' \<noteq> b \<and> b' \<noteq> r \<and> b' \<noteq> b \<and>
       nextBuffer s \<le> r' \<and> nextBuffer s \<le> b' \<and>
       byteLength s1 r' = maxDipoles s1 * 16 * 4 \<and>
       byteLength s1 b' = maxDipoles s1 * 16 * 4)"
proof -
  note inv = reachable_inv[OF reach]
  have inv1: "worker_inv s1" using step_worker_inv[OF inv st] .
  from posting_step[OF inv st po] obtain r' b' where
    lt: "r < nextBuffer s1" "b < nextBuffer s1" and
    rb: "redMatricesBuffer s1 = Some r'" "blueMatricesBuffer s1 = Some b'"
      "r' \<noteq> b'" "r' \<noteq> r" "r' \<noteq> b" "b' \<noteq> r" "b' \<noteq> b"
      "nextBuffer s \<le> r'" "nextBuffer s \<le> b'"
      "heap s1 r' = replicate (maxDipoles s1 * 16) 0"
      "heap s1 b' = replicate (maxDipoles s1 * 16) 0"
    by blast
  have hr: "\<forall>e'\<in>set evs'. \<not> returns r e'" and hb: "\<forall>e'\<in>set evs'. \<not> returns b e'"
    using held by simp_all
  have "heap s2 r = heap s1 r"
    using run_foreign[OF inv1 later lt(1) _ _ hr] rb by simp
  moreover have "heap s2 b = heap s1 b"
    using run_foreign[OF inv1 later lt(2) _ _ hb] rb by simp
  ultimately show ?thesis using rb by (simp add: byteLength_def)
qed

theorem buffer_ownership_witness:
  "heap (projr (run (onInit 1 demo_params (9/100) initial_worker) unreturned_events)) 0 =
     replicate 16 0"
proof -
  have reach: "run initial_worker [] = Inr initial_worker" by simp
  have st: "step initial_worker (Init 1 demo_params (9/100)) =
      Inr (onInit 1 demo_params (9/100) initial_worker)" by simp
  have po: "posted (onInit 1 demo_params (9/100) initial_worker) =
      posted initial_worker @ [(0, 1)]"
    by (simp add: onInit_fields initial_worker_def)
  have later: "run (onInit 1 demo_params (9/100) initial_worker) unreturned_events =
      Inr (projr (run (onInit 1 demo_params (9/100) initial_worker) unreturned_events))"
    by (simp add: eval_defs)
  have held: "\<forall>e'\<in>set unreturned_events. \<not> returns 0 e' \<and> \<not> returns 1 e'"
    by (simp add: unreturned_events_def)
  have z: "heap (onInit 1 demo_params (9/100) initial_worker) 0 = replicate 16 0"
    by (simp add: onInit_fields initial_worker_def)
  from buffer_ownership[OF reach st po later held] z show ?thesis by simp
qed

text \<open>The claim as stated fails: block 0 is transferred by the post of
  \<^verbatim>\<open>init\<close>, comes back with \<^verbatim>\<open>returnBuffers\<close>, and the next tick writes
  the matrix of the dipole it spawns into it.\<close>

theorem returned_pair_rewritten_counterexample:
  "(0, 1) \<in> set (posted (projr (run initial_worker [Init 1 demo_params (9/100)]))) \<and>
   heap (projr (run initial_worker [Init 1 demo_params (9/100)])) 0 ! 15 = 0 \<and>
   heap (projr (run initial_worker recycle_events)) 0 ! 15 = 1"
  by (simp add: eval_defs)

text \<open>
  C3 (particle lifecycle). In a tick with nonnegative \<open>dt\<close> and speed, started in a
  state the worker can reach, let slot \<open>i\<close> hold a particle with \<open>l\<close> to live: one
  that is active when the tick starts, or the one the tick spawns. If \<open>l\<close> less
  \<open>dt * speed\<close> is positive, that is its life after the tick and it stays active.
  Otherwise its life is set to 0, the slot leaves the active list and is in the free
  list exactly once, and the pair the tick posts holds at slot \<open>i\<close>, in both
  buffers, the transform whose rotation and scale part is zero. The life of a particle
  that was active before the tick does not grow.
\<close>

theorem particle_lifecycle:
  assumes reach: "run initial_worker evs = Inr s"
    and running: "simulationRunning s"
    and tick: "updateSimulation ts rnd s = Inr s'"
    and who: "(i \<in> set (activeDipoleIndices s) \<and> l = life (dipoles s ! i)) \<or>
              (spawnCondition ts rnd s \<and> i = last (instanceIndices s) \<and>
               l = dipoleLifetime (params s) * (0.8 + rnd 1 * 0.4))"
    and dt: "0 \<le> deltaTime s ts" and sp: "0 \<le> speed (params s)"
  shows "(i \<in> set (activeDipoleIndices s) \<longrightarrow> life (dipoles s' ! i) \<le> life (dipoles s ! i)) \<and>
    (0 < l - deltaTime s ts * speed (params s) \<longrightarrow>
       life (dipoles s' ! i) = l - deltaTime s ts * speed (params s) \<and>
       i \<in> set (activeDipoleIndices s')) \<and>
    (l - deltaTime s ts * speed (params s) \<le> 0 \<longrightarrow>
       life (dipoles s' ! i) = 0 \<and>
       i \<notin> set (activeDipoleIndices s') \<and>
       count_list (instanceIndices s') i = 1 \<and>
       (\<exists>r b. posted s' = posted s @ [(r, b)] \<and>
          slot s' r i = [0,0,0,0, 0,0,0,0, 0,0,0,0,
             vx (position (dipoles s' ! i)), vy (position (dipoles s' ! i)),
             vz (position (dipoles s' ! i)), 1] \<and>
          slot s' b i = [0,0,0,0, 0,0,0,0, 0,0,0,0,
             vx (position (dipoles s' ! i)), vy (position (dipoles s' ! i)),
             vz (position (dipoles s' ! i)), 1]))"
proof -
  let ?dt = "deltaTime s ts"
  let ?l = "l - ?dt * speed (params s)"
  let ?z = "[0,0,0,0, 0,0,0,0, 0,0,0,0,
             vx (position (dipoles s' ! i)), vy (position (dipoles s' ! i)),
             vz (position (dipoles s' ! i)), 1]"
  from reachable_inv[OF reach] have p: "pool_inv s" and o: "own_inv s" and f: "offsets_inv s"
    by (simp_all add: worker_inv_def)
  from p have ps: "pool_struct s" by (simp add: pool_inv_def)
  have p': "pool_inv s'" and m': "maxDipoles s' = maxDipoles s"
    using updateSimulation_pool_inv[OF p tick] by simp_all
  have nonneg: "0 \<le> ?dt * speed (params s)" using dt sp by simp
  from running tick ps o show ?thesis
  proof (rule updateSimulation_effect)
    fix s1
    assume s1: "spawnDecision ?dt rnd (s\<lparr>lastTimestamp := ts\<rparr>) = Inr s1"
      and st1: "pool_struct s1" and st': "pool_struct s'"
      and fr: "sim_frame (s\<lparr>lastTimestamp := ts\<rparr>) s1"
      and ad: "\<And>i. i \<in> set (activeDipoleIndices s1) \<Longrightarrow>
         dipoles s' ! i = settled (aged ?dt (params s) (dipoles s1 ! i))"
      and pub: "activeDipoleIndices s1 \<noteq> [] \<Longrightarrow>
       \<exists>r b. redMatricesBuffer s = Some r \<and> blueMatricesBuffer s = Some b \<and> r \<noteq> b \<and>
         r < nextBuffer s \<and> b < nextBuffer s \<and>
         posted s' = posted s @ [(r, b)] \<and>
         redMatricesBuffer s' = Some (nextBuffer s) \<and>
         blueMatricesBuffer s' = Some (Suc (nextBuffer s)) \<and>
         nextBuffer s' = Suc (Suc (nextBuffer s)) \<and>
         heap s' (nextBuffer s) = replicate (maxDipoles s * 16) 0 \<and>
         heap s' (Suc (nextBuffer s)) = replicate (maxDipoles s * 16) 0 \<and>
         (\<forall>i\<in>set (activeDipoleIndices s1).
            slot s' r i = lobeMatrix (aged ?dt (params s) (dipoles s1 ! i))
                            (agedScale (aged ?dt (params s) (dipoles s1 ! i)))
                            (matrixOffsetRed s) \<and>
            slot s' b i = lobeMatrix (aged ?dt (params s) (dipoles s1 ! i))
                            (agedScale (aged ?dt (params s) (dipoles s1 ! i)))
                            (matrixOffsetBlue s)) \<and>
         (\<forall>j. j \<notin> set (activeDipoleIndices s1) \<longrightarrow>
            slot s' r j = slot s r j \<and> slot s' b j = slot s b j)"
    have st0: "pool_struct (s\<lparr>lastTimestamp := ts\<rparr>)" using ps by (simp add: pool_struct_def)
    have i1: "i \<in> set (activeDipoleIndices s1)" and l1: "life (dipoles s1 ! i) = l"
    proof -
      from who show "i \<in> set (activeDipoleIndices s1)"
      proof
        assume "i \<in> set (activeDipoleIndices s) \<and> l = life (dipoles s ! i)"
        then show ?thesis using spawnDecision_old(1)[OF s1 st0] by simp
      next
        assume "spawnCondition ts rnd s \<and> i = last (instanceIndices s) \<and>
               l = dipoleLifetime (params s) * (0.8 + rnd 1 * 0.4)"
        then show ?thesis using spawnDecision_new(1)[OF s1] by (simp add: spawnCondition_def)
      qed
      from who show "life (dipoles s1 ! i) = l"
      proof
        assume "i \<in> set (activeDipoleIndices s) \<and> l = life (dipoles s ! i)"
        then show ?thesis using spawnDecision_old(2)[OF s1 st0] by simp
      next
        assume "spawnCondition ts rnd s \<and> i = last (instanceIndices s) \<and>
               l = dipoleLifetime (params s) * (0.8 + rnd 1 * 0.4)"
        then show ?thesis using spawnDecision_new(2)[OF s1] by (simp add: spawnCondition_def)
      qed
    qed
    from st1 i1 have "i < maxDipoles s1" by (auto simp: pool_struct_def)
    then have ilt': "i < maxDipoles s'" using fr m' by (simp add: sim_frame_def)
    note pl' = pool_inv_life[OF p' ilt']
    have di: "dipoles s' ! i = settled (aged ?dt (params s) (dipoles s1 ! i))"
      by (rule ad[OF i1])
    have li: "life (dipoles s' ! i) = (if ?l \<le> 0 then 0 else ?l)"
      by (simp add: di l1)
    have pe: "position (dipoles s' ! i) = position (dipoles s1 ! i)"
      by (simp add: di)
    have c1: "i \<in> set (activeDipoleIndices s) \<longrightarrow> life (dipoles s' ! i) \<le> life (dipoles s ! i)"
    proof
      assume a: "i \<in> set (activeDipoleIndices s)"
      with ps have "i < maxDipoles s" by (auto simp: pool_struct_def)
      from pool_inv_life[OF p this] a have pos: "0 < life (dipoles s ! i)" by simp
      have "dipoles s1 ! i = dipoles s ! i" using spawnDecision_old(2)[OF s1 st0] a by simp
      with l1 have "l = life (dipoles s ! i)" by simp
      with li pos nonneg show "life (dipoles s' ! i) \<le> life (dipoles s ! i)"
        by (simp split: if_splits)
    qed
    have c2: "0 < ?l \<longrightarrow> life (dipoles s' ! i) = ?l \<and> i \<in> set (activeDipoleIndices s')"
      using li pl' by auto
    have c3: "?l \<le> 0 \<longrightarrow> life (dipoles s' ! i) = 0 \<and>
       i \<notin> set (activeDipoleIndices s') \<and>
       count_list (instanceIndices s') i = 1 \<and>
       (\<exists>r b. posted s' = posted s @ [(r, b)] \<and> slot s' r i = ?z \<and> slot s' b i = ?z)"
    proof
      assume dead: "?l \<le> 0"
      have l0: "life (dipoles s' ! i) = 0" using li dead by simp
      have na: "i \<notin> set (activeDipoleIndices s')"
        using l0 pl' by auto
      have "i \<in> set (instanceIndices s')"
        using st' na ilt' by (auto simp: pool_struct_def)
      moreover have "distinct (instanceIndices s')" using st' by (simp add: pool_struct_def)
      ultimately have cnt: "count_list (instanceIndices s') i = 1"
        by (simp add: distinct_count_list_1)
      from i1 have "activeDipoleIndices s1 \<noteq> []" by auto
      from pub[OF this] obtain r b where
        po: "posted s' = posted s @ [(r, b)]" and
        sl: "\<forall>i\<in>set (activeDipoleIndices s1).
            slot s' r i = lobeMatrix (aged ?dt (params s) (dipoles s1 ! i))
                            (agedScale (aged ?dt (params s) (dipoles s1 ! i)))
                            (matrixOffsetRed s) \<and>
            slot s' b i = lobeMatrix (aged ?dt (params s) (dipoles s1 ! i))
                            (agedScale (aged ?dt (params s) (dipoles s1 ! i)))
                            (matrixOffsetBlue s)"
        by blast
      have sc: "agedScale (aged ?dt (params s) (dipoles s1 ! i)) = 0"
        using dead l1 by (simp add: agedScale_def)
      from sl i1 sc f pe have "slot s' r i = ?z \<and> slot s' b i = ?z"
        by (simp add: offsets_inv_def lobeMatrix_zero)
      with po l0 na cnt show "life (dipoles s' ! i) = 0 \<and>
       i \<notin> set (activeDipoleIndices s') \<and>
       count_list (instanceIndices s') i = 1 \<and>
       (\<exists>r b. posted s' = posted s @ [(r, b)] \<and> slot s' r i = ?z \<and> slot s' b i = ?z)"
        by auto
    qed
    from c1 c2 c3 show ?thesis by blast
  qed
qed

theorem particle_lifecycle_witness:
  "life (dipoles (projr (updateSimulation 1032 demo_draws dying_state)) ! 0) = 0 \<and>
   0 \<notin> set (activeDipoleIndices (projr (updateSimulation 1032 demo_draws dying_state))) \<and>
   count_list (instanceIndices (projr (updateSimulation 1032 demo_draws dying_state))) 0 = 1"
proof -
  have tick: "updateSimulation 1032 demo_draws dying_state =
      Inr (projr (updateSimulation 1032 demo_draws dying_state))"
    by (simp add: dying_state_def eval_defs)
  have who: "(0 \<in> set (activeDipoleIndices dying_state) \<and> 498/125 = life (dipoles dying_state ! 0)) \<or>
      (spawnCondition 1032 demo_draws dying_state \<and> 0 = last (instanceIndices dying_state) \<and>
       498/125 = dipoleLifetime (params dying_state) * (0.8 + demo_draws 1 * 0.4))"
    by (simp add: dying_state_fields)
  have dt: "0 \<le> deltaTime dying_state 1032" "0 \<le> speed (params dying_state)"
    by (simp_all add: deltaTime_def dying_state_fields)
  have dead: "498/125 - deltaTime dying_state 1032 * speed (params dying_state) \<le> 0"
    by (simp add: deltaTime_def dying_state_fields)
  from particle_lifecycle[OF dying_run dying_state_fields(1) tick who dt] dead
  show ?thesis by simp
qed

text \<open>
  C4 (publish condition). A tick of the running simulation posts a
  \<^verbatim>\<open>matricesUpdate\<close> message exactly when the active list is not empty after the
  spawn decision, that is when a particle was active before the tick or the tick spawned
  one. The message carries the pair that was the write pair when the tick began. When
  nothing is posted, the tick changes \<open>lastTimestamp\<close> and nothing else: the write
  buffers stay. In a reachable state whose write buffers are two different blocks of the
  full size, every tick returns.
\<close>

theorem publish_condition:
  assumes "simulationRunning s" and "updateSimulation ts rnd s = Inr s'"
  shows "(posted s' \<noteq> posted s \<longleftrightarrow>
            activeDipoleIndices s \<noteq> [] \<or> spawnCondition ts rnd s) \<and>
         (activeDipoleIndices s \<noteq> [] \<or> spawnCondition ts rnd s \<longrightarrow>
            (\<exists>r b. redMatricesBuffer s = Some r \<and> blueMatricesBuffer s = Some b \<and>
                   posted s' = posted s @ [(r, b)])) \<and>
         (\<not> (activeDipoleIndices s \<noteq> [] \<or> spawnCondition ts rnd s) \<longrightarrow>
            s' = s\<lparr>lastTimestamp := ts\<rparr>) \<and>
         (spawnDecision (deltaTime s ts) rnd (s\<lparr>lastTimestamp := ts\<rparr>) = Inr s0 \<longrightarrow>
            (posted s' \<noteq> posted s \<longleftrightarrow> activeDipoleIndices s0 \<noteq> [])) \<and>
         (run initial_worker evs = Inr s \<and> buffers_ok s \<longrightarrow>
            (\<forall>ts' rnd'. \<exists>s''. updateSimulation ts' rnd' s = Inr s''))"
proof -
  have total: "run initial_worker evs = Inr s \<and> buffers_ok s \<longrightarrow>
            (\<forall>ts' rnd'. \<exists>s''. updateSimulation ts' rnd' s = Inr s'')"
  proof (intro impI allI)
    fix ts' rnd'
    assume h: "run initial_worker evs = Inr s \<and> buffers_ok s"
    then have "pool_struct s" using reachable_inv[of evs s]
      by (simp add: worker_inv_def pool_inv_def)
    with h show "\<exists>s''. updateSimulation ts' rnd' s = Inr s''"
      using updateSimulation_succeeds by blast
  qed
  let ?s0 = "s\<lparr>lastTimestamp := ts\<rparr>"
  obtain s1 s2 where
    sp: "spawnDecision (deltaTime s ts) rnd ?s0 = Inr s1" and
    lp: "advanceLoop (deltaTime s ts) (length (activeDipoleIndices s1)) (s1, 0) =
           Inr (s2, length (activeDipoleIndices s1))" and
    fin0: "activeDipoleIndices s1 = [] \<Longrightarrow> s' = s2" and
    fin1: "activeDipoleIndices s1 \<noteq> [] \<Longrightarrow> postMatrices s2 = Inr s'"
    by (rule updateSimulation_parts[OF assms]) blast
  note a1 = spawnDecision_active[OF sp]
  have ne: "activeDipoleIndices s1 \<noteq> [] \<longleftrightarrow>
      activeDipoleIndices s \<noteq> [] \<or> spawnCondition ts rnd s"
    using a1(1) by (auto simp: spawnCondition_def)
  have f01: "sim_frame ?s0 s1" by (rule spawnDecision_frame(1)[OF sp])
  from advanceLoop_frame[OF lp] have f12: "sim_frame s1 s2"
    and z: "activeDipoleIndices s1 = [] \<Longrightarrow> s2 = s1" by auto
  have f02: "sim_frame ?s0 s2" using f01 f12 by (rule sim_frame_trans)
  show ?thesis
  proof (cases "activeDipoleIndices s1 = []")
    case True
    then have "\<not> spawnCondition ts rnd s" using ne by simp
    then have "s1 = ?s0" using a1(3) by (simp add: spawnCondition_def)
    with z[OF True] fin0[OF True] have "s' = ?s0" by simp
    with True ne sp total show ?thesis by auto
  next
    case False
    from fin1[OF False] show ?thesis
    proof (rule postMatrices_effect)
      fix r b
      assume "redMatricesBuffer s2 = Some r" "blueMatricesBuffer s2 = Some b"
        "posted s' = posted s2 @ [(r, b)]"
      with f02 False ne sp total show ?thesis by (auto simp: sim_frame_def)
    qed
  qed
qed

theorem publish_condition_witness:
  "posted (projr (updateSimulation 1016 demo_draws demo_started)) = [(0, 1), (2, 3)] \<and>
   activeDipoleIndices (projr (spawnDecision (deltaTime demo_started 1016) demo_draws
      (demo_started\<lparr>lastTimestamp := 1016\<rparr>))) \<noteq> []"
proof -
  have running: "simulationRunning demo_started"
    by (simp add: demo_started_eq)
  have tick: "updateSimulation 1016 demo_draws demo_started =
      Inr (projr (updateSimulation 1016 demo_draws demo_started))"
    by (simp add: demo_started_eq eval_defs numeral_2_eq_2)
  have sp: "spawnDecision (deltaTime demo_started 1016) demo_draws
      (demo_started\<lparr>lastTimestamp := 1016\<rparr>) =
      Inr (projr (spawnDecision (deltaTime demo_started 1016) demo_draws
        (demo_started\<lparr>lastTimestamp := 1016\<rparr>)))"
    by (simp add: demo_started_eq eval_defs numeral_2_eq_2)
  have c: "spawnCondition 1016 demo_draws demo_started"
    by (simp add: spawnCondition_def deltaTime_def demo_started_eq onInit_fields demo_defs)
  have f: "redMatricesBuffer demo_started = Some 2" "blueMatricesBuffer demo_started = Some 3"
    "posted demo_started = [(0, 1)]"
    by (simp_all add: demo_started_eq onInit_fields initial_worker_def)
  have reach: "run initial_worker [Init 2 demo_params (9/100), Start 1000] = Inr demo_started"
    by (simp add: demo_started_def)
  have ok: "buffers_ok demo_started"
    by (simp add: buffers_ok_def demo_started_eq onInit_fields initial_worker_def)
  from publish_condition[OF running tick, of "projr (spawnDecision (deltaTime demo_started 1016)
      demo_draws (demo_started\<lparr>lastTimestamp := 1016\<rparr>))"
      "[Init 2 demo_params (9/100), Start 1000]"] sp c f reach ok
  show ?thesis by auto
qed

text \<open>
  C5 (spawn gating). With an empty free list \<open>createDipole\<close> and the spawn decision
  return the state unchanged, without an error. The spawn decision compares one draw
  with \<open>creationProbability * dt\<close>, whatever the size of that product: when the draw is
  below it and the free list is not empty, the last free slot moves to the end of the
  active list, and otherwise the state is unchanged. After a tick, the active list holds
  no slot that was not active before, except possibly that one slot.
\<close>

theorem spawn_gating:
  "(instanceIndices s = [] \<longrightarrow> createDipole r s = Inr s \<and> spawnDecision dt rnd s = Inr s) \<and>
   (spawnDecision dt rnd s = Inr s1 \<longrightarrow>
      (if rnd 0 < creationProbability (params s) * dt \<and> instanceIndices s \<noteq> []
       then activeDipoleIndices s1 = activeDipoleIndices s @ [last (instanceIndices s)] \<and>
            instanceIndices s1 = butlast (instanceIndices s)
       else s1 = s)) \<and>
   (simulationRunning s \<and> updateSimulation ts rnd s = Inr s' \<longrightarrow>
      set (activeDipoleIndices s') \<subseteq>
        set (activeDipoleIndices s) \<union> {last (instanceIndices s)} \<and>
      (\<not> spawnCondition ts rnd s \<longrightarrow>
         set (activeDipoleIndices s') \<subseteq> set (activeDipoleIndices s)))"
proof (intro conjI impI)
  assume "instanceIndices s = []"
  then show "createDipole r s = Inr s" "spawnDecision dt rnd s = Inr s"
    by (simp_all add: createDipole_def spawnDecision_def)
next
  assume sp: "spawnDecision dt rnd s = Inr s1"
  note a = spawnDecision_active[OF sp]
  show "if rnd 0 < creationProbability (params s) * dt \<and> instanceIndices s \<noteq> []
       then activeDipoleIndices s1 = activeDipoleIndices s @ [last (instanceIndices s)] \<and>
            instanceIndices s1 = butlast (instanceIndices s)
       else s1 = s"
    using a by (simp split: if_splits)
next
  assume ru: "simulationRunning s \<and> updateSimulation ts rnd s = Inr s'"
  note t = tick_active_subset[OF conjunct1[OF ru] conjunct2[OF ru]]
  show "set (activeDipoleIndices s') \<subseteq> set (activeDipoleIndices s) \<union> {last (instanceIndices s)}"
    by (rule t(1))
  show "\<not> spawnCondition ts rnd s \<Longrightarrow> set (activeDipoleIndices s') \<subseteq> set (activeDipoleIndices s)"
    by (rule t(2))
qed

theorem spawn_gating_witness:
  "activeDipoleIndices (projr (spawnDecision (16/1000) demo_draws demo_started)) = [1] \<and>
   instanceIndices (projr (spawnDecision (16/1000) demo_draws demo_started)) = [0] \<and>
   set (activeDipoleIndices (projr (updateSimulation 1016 demo_draws demo_started))) \<subseteq> {1} \<and>
   createDipole demo_draws spawned_state = Inr spawned_state"
proof -
  have sp: "spawnDecision (16/1000) demo_draws demo_started =
      Inr (projr (spawnDecision (16/1000) demo_draws demo_started))"
    by (simp add: demo_started_eq eval_defs numeral_2_eq_2)
  have c: "demo_draws 0 < creationProbability (params demo_started) * (16/1000) \<and>
      instanceIndices demo_started \<noteq> []"
    by (simp add: demo_started_eq onInit_fields demo_defs)
  have f: "instanceIndices demo_started = [0, 1]" "activeDipoleIndices demo_started = []"
    by (simp_all add: demo_started_eq onInit_fields numeral_2_eq_2 upt_rec)
  have running: "simulationRunning demo_started"
    by (simp add: demo_started_eq)
  have tick: "updateSimulation 1016 demo_draws demo_started =
      Inr (projr (updateSimulation 1016 demo_draws demo_started))"
    by (simp add: demo_started_eq eval_defs numeral_2_eq_2)
  from spawn_gating[of demo_started demo_draws "16/1000" demo_draws
      "projr (spawnDecision (16/1000) demo_draws demo_started)" 1016
      "projr (updateSimulation 1016 demo_draws demo_started)"] sp c f running tick
  have a: "activeDipoleIndices (projr (spawnDecision (16/1000) demo_draws demo_started)) = [1] \<and>
   instanceIndices (projr (spawnDecision (16/1000) demo_draws demo_started)) = [0] \<and>
   set (activeDipoleIndices (projr (updateSimulation 1016 demo_draws demo_started))) \<subseteq> {1}"
    by simp
  from spawn_gating[of spawned_state demo_draws 0 demo_draws spawned_state 1016 spawned_state]
    spawned_state_fields(3)
  have b: "createDipole demo_draws spawned_state = Inr spawned_state" by simp
  from a b show ?thesis by simp
qed







text \<open>
  C8 (zero or negative \<open>dt\<close>), as amended. In a tick of a reachable state with
  \<open>dt \<le> 0\<close>, a nonnegative spawn rate and a nonnegative draw, the spawn test is
  evaluated and fails, so no slot becomes active. Every active particle whose life less
  \<open>dt * speed\<close> is positive has exactly that life after the tick: with \<open>dt = 0\<close> no
  life changes and both lists stay as they are, with \<open>dt < 0\<close> and a positive speed the
  life grows. Any number of ticks at the timestamp of the last tick leaves the lists and
  every life unchanged.
\<close>

theorem nonpositive_dt_tick:
  assumes reach: "run initial_worker evs = Inr s"
  shows "(simulationRunning s \<and> updateSimulation ts rnd s = Inr s' \<and> 0 \<le> rnd 0 \<and>
          deltaTime s ts \<le> 0 \<and> 0 \<le> creationProbability (params s) \<longrightarrow>
            \<not> spawnCondition ts rnd s \<and>
            set (activeDipoleIndices s') \<subseteq> set (activeDipoleIndices s) \<and>
            (\<forall>i\<in>set (activeDipoleIndices s).
               0 < life (dipoles s ! i) - deltaTime s ts * speed (params s) \<longrightarrow>
               life (dipoles s' ! i) =
                 life (dipoles s ! i) - deltaTime s ts * speed (params s)) \<and>
            (deltaTime s ts = 0 \<longrightarrow>
               activeDipoleIndices s' = activeDipoleIndices s \<and>
               instanceIndices s' = instanceIndices s \<and>
               map life (dipoles s') = map life (dipoles s))) \<and>
         (0 < lastTimestamp s \<and> (\<forall>rnd\<in>set rnds. 0 \<le> rnd 0) \<and>
          run s (map (Frame (lastTimestamp s)) rnds) = Inr s'' \<longrightarrow>
            activeDipoleIndices s'' = activeDipoleIndices s \<and>
            instanceIndices s'' = instanceIndices s \<and>
            map life (dipoles s'') = map life (dipoles s))"
proof (intro conjI impI)
  note inv = reachable_inv[OF reach]
  from inv have p: "pool_inv s" and o: "own_inv s" by (simp_all add: worker_inv_def)
  from p have ps: "pool_struct s" by (simp add: pool_inv_def)
  {
    assume h: "0 < lastTimestamp s \<and> (\<forall>rnd\<in>set rnds. 0 \<le> rnd 0) \<and>
          run s (map (Frame (lastTimestamp s)) rnds) = Inr s''"
    from still_run[OF inv, of rnds s''] h
    show "activeDipoleIndices s'' = activeDipoleIndices s"
      "instanceIndices s'' = instanceIndices s"
      "map life (dipoles s'') = map life (dipoles s)" by simp_all
  }
  assume h: "simulationRunning s \<and> updateSimulation ts rnd s = Inr s' \<and> 0 \<le> rnd 0 \<and>
          deltaTime s ts \<le> 0 \<and> 0 \<le> creationProbability (params s)"
  then have running: "simulationRunning s" and tick: "updateSimulation ts rnd s = Inr s'"
    and draw: "0 \<le> rnd 0" and dt: "deltaTime s ts \<le> 0"
    and cp: "0 \<le> creationProbability (params s)" by simp_all
  have "creationProbability (params s) * deltaTime s ts \<le> 0"
    using cp dt by (simp add: mult_nonneg_nonpos)
  with draw show ns: "\<not> spawnCondition ts rnd s" by (simp add: spawnCondition_def)
  from tick_active_subset(2)[OF running tick ns]
  show "set (activeDipoleIndices s') \<subseteq> set (activeDipoleIndices s)" .
  show "\<forall>i\<in>set (activeDipoleIndices s).
               0 < life (dipoles s ! i) - deltaTime s ts * speed (params s) \<longrightarrow>
               life (dipoles s' ! i) =
                 life (dipoles s ! i) - deltaTime s ts * speed (params s)"
  proof (intro ballI impI)
    fix i assume i: "i \<in> set (activeDipoleIndices s)"
      and al: "0 < life (dipoles s ! i) - deltaTime s ts * speed (params s)"
    from running tick ps o show "life (dipoles s' ! i) =
                 life (dipoles s ! i) - deltaTime s ts * speed (params s)"
    proof (rule updateSimulation_effect)
      fix s1
      assume sp: "spawnDecision (deltaTime s ts) rnd (s\<lparr>lastTimestamp := ts\<rparr>) = Inr s1"
        and ad: "\<And>i. i \<in> set (activeDipoleIndices s1) \<Longrightarrow>
         dipoles s' ! i = settled (aged (deltaTime s ts) (params s) (dipoles s1 ! i))"
      have st0: "pool_struct (s\<lparr>lastTimestamp := ts\<rparr>)" using ps by (simp add: pool_struct_def)
      from spawnDecision_old[OF sp st0] i
      have "i \<in> set (activeDipoleIndices s1)" "dipoles s1 ! i = dipoles s ! i" by simp_all
      with ad al show ?thesis by simp
    qed
  qed
  {
    assume z: "deltaTime s ts = 0"
    from still_tick[OF inv running tick draw z]
    show "activeDipoleIndices s' = activeDipoleIndices s"
      "instanceIndices s' = instanceIndices s"
      "map life (dipoles s') = map life (dipoles s)" by simp_all
  }
qed

theorem nonpositive_dt_tick_witness:
  "map life (dipoles (projr (updateSimulation 1016 demo_draws spawned_state))) =
     map life (dipoles spawned_state) \<and>
   activeDipoleIndices (projr (updateSimulation 1016 demo_draws spawned_state)) =
     activeDipoleIndices spawned_state"
proof -
  have tick: "updateSimulation 1016 demo_draws spawned_state =
      Inr (projr (updateSimulation 1016 demo_draws spawned_state))"
    by (simp add: spawned_state_def eval_defs)
  have h: "0 \<le> demo_draws 0" "deltaTime spawned_state 1016 \<le> 0"
    "deltaTime spawned_state 1016 = 0"
    "0 \<le> creationProbability (params spawned_state)"
    "0 < lastTimestamp spawned_state"
    "\<forall>rnd\<in>set [demo_draws]. 0 \<le> rnd 0"
    by (simp_all add: deltaTime_def spawned_state_fields demo_draws_def)
  have again: "run spawned_state (map (Frame (lastTimestamp spawned_state)) [demo_draws]) =
      Inr (projr (updateSimulation 1016 demo_draws spawned_state))"
    using tick by (simp only: spawned_state_fields list.map run_single)
  from nonpositive_dt_tick[OF spawned_run, of 1016 demo_draws
      "projr (updateSimulation 1016 demo_draws spawned_state)" "[demo_draws]"
      "projr (updateSimulation 1016 demo_draws spawned_state)"]
    spawned_state_fields(1) tick h again
  show ?thesis by simp
qed

text \<open>The claim as stated fails for a negative \<open>dt\<close>: the tick half a second before
  the last one changes the life of the active particle.\<close>

theorem negative_dt_ages_counterexample:
  "deltaTime spawned_state 516 < 0 \<and>
   0 \<in> set (activeDipoleIndices spawned_state) \<and>
   life (dipoles spawned_state ! 0) = 498/125 \<and>
   life (dipoles (projr (updateSimulation 516 demo_draws spawned_state)) ! 0) = 2242/500"
  by (simp add: spawned_state_def eval_defs)

text \<open>
  C9 (effect of \<^verbatim>\<open>init\<close>), as amended. An \<^verbatim>\<open>init\<close> message with a
  capacity, parameters and a lobe offset stores the three, rebuilds the pool (every slot
  index in the free list in order, the active list empty, every dipole with life 0 and
  its own index), allocates four zero-filled buffers of \<open>capacity * 16 * 4\<close> bytes,
  posts the first two and keeps the other two as write buffers, and sets the offset
  matrices to the translations by \<open>+offset\<close> and \<open>-offset\<close> along y. It leaves
  \<open>simulationRunning\<close> and \<open>lastTimestamp\<close> as they were: the simulation is stopped
  afterwards only if it was stopped before.
\<close>

theorem init_effect:
  "step s (Init n ps off) = Inr (onInit n ps off s) \<and>
   maxDipoles (onInit n ps off s) = n \<and>
   params (onInit n ps off s) = ps \<and>
   lobeOffset (onInit n ps off s) = off \<and>
   instanceIndices (onInit n ps off s) = [0..<n] \<and>
   activeDipoleIndices (onInit n ps off s) = [] \<and>
   length (dipoles (onInit n ps off s)) = n \<and>
   (\<forall>i\<in>{0..<n}. life (dipoles (onInit n ps off s) ! i) = 0 \<and>
                  instanceIndex (dipoles (onInit n ps off s) ! i) = i) \<and>
   posted (onInit n ps off s) = posted s @ [(nextBuffer s, nextBuffer s + 1)] \<and>
   redMatricesBuffer (onInit n ps off s) = Some (nextBuffer s + 2) \<and>
   blueMatricesBuffer (onInit n ps off s) = Some (nextBuffer s + 3) \<and>
   (\<forall>k\<in>{nextBuffer s, nextBuffer s + 1, nextBuffer s + 2, nextBuffer s + 3}.
      byteLength (onInit n ps off s) k = n * 16 * 4 \<and>
      heap (onInit n ps off s) k = replicate (n * 16) 0) \<and>
   matrixOffsetRed (onInit n ps off s) = [1,0,0,0, 0,1,0,0, 0,0,1,0, 0,off,0,1] \<and>
   matrixOffsetBlue (onInit n ps off s) = [1,0,0,0, 0,1,0,0, 0,0,1,0, 0,- off,0,1] \<and>
   simulationRunning (onInit n ps off s) = simulationRunning s \<and>
   lastTimestamp (onInit n ps off s) = lastTimestamp s"
  by (simp add: onInit_fields newDipole_def byteLength_def Mat4_makeTranslation_def)

theorem init_effect_witness:
  "instanceIndices (onInit 2 demo_params (9/100) initial_worker) = [0, 1] \<and>
   life (dipoles (onInit 2 demo_params (9/100) initial_worker) ! 1) = 0 \<and>
   byteLength (onInit 2 demo_params (9/100) initial_worker) 3 = 128 \<and>
   \<not> simulationRunning (onInit 2 demo_params (9/100) initial_worker)"
  using init_effect[of initial_worker 2 demo_params "9/100"]
  by (simp add: initial_worker_def numeral_2_eq_2 upt_rec)

text \<open>The claim as stated fails for an \<^verbatim>\<open>init\<close> that arrives while the
  simulation runs: it keeps running.\<close>

theorem init_keeps_running_counterexample:
  "\<not> isl (run initial_worker reinit_events) \<and>
   simulationRunning (projr (run initial_worker reinit_events)) \<and>
   activeDipoleIndices (projr (run initial_worker reinit_events)) = []"
  by (simp add: reinit_events_def onInit_def newArrayBuffer_def Let_def)

text \<open>
  C10 (\<^verbatim>\<open>returnBuffers\<close>). In any reachable state a \<^verbatim>\<open>returnBuffers\<close>
  message makes the returned pair the write pair, whatever the write pair was, and
  changes no buffer contents. A block of the former write pair that is not part of the
  returned pair is dropped: until some later message hands it back, the worker neither
  writes to it nor posts it. If the next tick publishes, it posts the returned pair, and
  every slot the tick does not visit (not active before it and not the slot it spawns
  into) holds in that pair what the returned buffers held.
\<close>

theorem returnBuffers_replaces:
  assumes reach: "run initial_worker evs = Inr s"
  shows "step s (ReturnBuffers r b) = Inr (onReturnBuffers r b s) \<and>
    redMatricesBuffer (onReturnBuffers r b s) = Some r \<and>
    blueMatricesBuffer (onReturnBuffers r b s) = Some b \<and>
    heap (onReturnBuffers r b s) = heap s \<and>
    posted (onReturnBuffers r b s) = posted s \<and>
    ((redMatricesBuffer s = Some k \<or> blueMatricesBuffer s = Some k) \<and> k \<noteq> r \<and> k \<noteq> b \<and>
       run (onReturnBuffers r b s) evs' = Inr s3 \<and> (\<forall>e\<in>set evs'. \<not> returns k e) \<longrightarrow>
         heap s3 k = heap s k \<and>
         Some k \<noteq> redMatricesBuffer s3 \<and> Some k \<noteq> blueMatricesBuffer s3 \<and>
         (\<forall>p\<in>set (drop (length (posted s)) (posted s3)). fst p \<noteq> k \<and> snd p \<noteq> k)) \<and>
    (simulationRunning s \<and> updateSimulation ts rnd (onReturnBuffers r b s) = Inr s2 \<and>
       posted s2 \<noteq> posted s \<longrightarrow>
         posted s2 = posted s @ [(r, b)] \<and>
         (\<forall>j. j \<notin> set (activeDipoleIndices s) \<and>
               (instanceIndices s = [] \<or> j \<noteq> last (instanceIndices s)) \<longrightarrow>
               slot s2 r j = slot s r j \<and> slot s2 b j = slot s b j))"
proof -
  let ?s1 = "onReturnBuffers r b s"
  note inv = reachable_inv[OF reach]
  have st: "step s (ReturnBuffers r b) = Inr ?s1" by simp
  have inv1: "worker_inv ?s1" using step_worker_inv[OF inv st] .
  from inv have o: "own_inv s" by (simp add: worker_inv_def)
  have f: "redMatricesBuffer ?s1 = Some r" "blueMatricesBuffer ?s1 = Some b"
    "heap ?s1 = heap s" "posted ?s1 = posted s"
    "activeDipoleIndices ?s1 = activeDipoleIndices s" "instanceIndices ?s1 = instanceIndices s"
    "simulationRunning ?s1 = simulationRunning s" "nextBuffer s \<le> nextBuffer ?s1"
    by (simp_all add: onReturnBuffers_def)
  have discard: "(redMatricesBuffer s = Some k \<or> blueMatricesBuffer s = Some k) \<and> k \<noteq> r \<and> k \<noteq> b \<and>
       run ?s1 evs' = Inr s3 \<and> (\<forall>e\<in>set evs'. \<not> returns k e) \<longrightarrow>
         heap s3 k = heap s k \<and>
         Some k \<noteq> redMatricesBuffer s3 \<and> Some k \<noteq> blueMatricesBuffer s3 \<and>
         (\<forall>p\<in>set (drop (length (posted s)) (posted s3)). fst p \<noteq> k \<and> snd p \<noteq> k)"
  proof
    assume h: "(redMatricesBuffer s = Some k \<or> blueMatricesBuffer s = Some k) \<and> k \<noteq> r \<and> k \<noteq> b \<and>
       run ?s1 evs' = Inr s3 \<and> (\<forall>e\<in>set evs'. \<not> returns k e)"
    then have "k < nextBuffer s" using o by (auto simp: own_inv_def)
    then have klt: "k < nextBuffer ?s1" using f(8) by simp
    have kr: "Some k \<noteq> redMatricesBuffer ?s1" "Some k \<noteq> blueMatricesBuffer ?s1"
      using h f by auto
    from h have run3: "run ?s1 evs' = Inr s3" and nr: "\<forall>e\<in>set evs'. \<not> returns k e"
      by simp_all
    from run_foreign[OF inv1 run3 klt kr nr] obtain zs where
      a: "heap s3 k = heap ?s1 k" "Some k \<noteq> redMatricesBuffer s3"
        "Some k \<noteq> blueMatricesBuffer s3"
      and z: "posted s3 = posted ?s1 @ zs" "\<forall>p\<in>set zs. fst p \<noteq> k \<and> snd p \<noteq> k"
      by blast
    from z f have "drop (length (posted s)) (posted s3) = zs" by simp
    with a z f show "heap s3 k = heap s k \<and>
         Some k \<noteq> redMatricesBuffer s3 \<and> Some k \<noteq> blueMatricesBuffer s3 \<and>
         (\<forall>p\<in>set (drop (length (posted s)) (posted s3)). fst p \<noteq> k \<and> snd p \<noteq> k)"
      by simp
  qed
  have stale: "simulationRunning s \<and> updateSimulation ts rnd ?s1 = Inr s2 \<and>
       posted s2 \<noteq> posted s \<longrightarrow>
         posted s2 = posted s @ [(r, b)] \<and>
         (\<forall>j. j \<notin> set (activeDipoleIndices s) \<and>
               (instanceIndices s = [] \<or> j \<noteq> last (instanceIndices s)) \<longrightarrow>
               slot s2 r j = slot s r j \<and> slot s2 b j = slot s b j)"
  proof
    assume h: "simulationRunning s \<and> updateSimulation ts rnd ?s1 = Inr s2 \<and>
       posted s2 \<noteq> posted s"
    then have running: "simulationRunning ?s1" and tick: "updateSimulation ts rnd ?s1 = Inr s2"
      and ne: "posted s2 \<noteq> posted ?s1" using f by simp_all
    from inv1 have p1: "pool_struct ?s1" and o1: "own_inv ?s1"
      by (simp_all add: worker_inv_def pool_inv_def)
    from running tick p1 o1 show "posted s2 = posted s @ [(r, b)] \<and>
         (\<forall>j. j \<notin> set (activeDipoleIndices s) \<and>
               (instanceIndices s = [] \<or> j \<noteq> last (instanceIndices s)) \<longrightarrow>
               slot s2 r j = slot s r j \<and> slot s2 b j = slot s b j)"
    proof (rule updateSimulation_effect)
      fix s0
      assume sp: "spawnDecision (deltaTime ?s1 ts) rnd (?s1\<lparr>lastTimestamp := ts\<rparr>) = Inr s0"
        and e0: "activeDipoleIndices s0 = [] \<Longrightarrow> s2 = ?s1\<lparr>lastTimestamp := ts\<rparr>"
        and e1: "activeDipoleIndices s0 \<noteq> [] \<Longrightarrow>
       \<exists>r' b'. redMatricesBuffer ?s1 = Some r' \<and> blueMatricesBuffer ?s1 = Some b' \<and> r' \<noteq> b' \<and>
         r' < nextBuffer ?s1 \<and> b' < nextBuffer ?s1 \<and>
         posted s2 = posted ?s1 @ [(r', b')] \<and>
         redMatricesBuffer s2 = Some (nextBuffer ?s1) \<and>
         blueMatricesBuffer s2 = Some (Suc (nextBuffer ?s1)) \<and>
         nextBuffer s2 = Suc (Suc (nextBuffer ?s1)) \<and>
         heap s2 (nextBuffer ?s1) = replicate (maxDipoles ?s1 * 16) 0 \<and>
         heap s2 (Suc (nextBuffer ?s1)) = replicate (maxDipoles ?s1 * 16) 0 \<and>
         (\<forall>i\<in>set (activeDipoleIndices s0).
            slot s2 r' i = lobeMatrix (aged (deltaTime ?s1 ts) (params ?s1) (dipoles s0 ! i))
                            (agedScale (aged (deltaTime ?s1 ts) (params ?s1) (dipoles s0 ! i)))
                            (matrixOffsetRed ?s1) \<and>
            slot s2 b' i = lobeMatrix (aged (deltaTime ?s1 ts) (params ?s1) (dipoles s0 ! i))
                            (agedScale (aged (deltaTime ?s1 ts) (params ?s1) (dipoles s0 ! i)))
                            (matrixOffsetBlue ?s1)) \<and>
         (\<forall>j. j \<notin> set (activeDipoleIndices s0) \<longrightarrow>
            slot s2 r' j = slot ?s1 r' j \<and> slot s2 b' j = slot ?s1 b' j)"
      have ne0: "activeDipoleIndices s0 \<noteq> []"
      proof
        assume "activeDipoleIndices s0 = []"
        from e0[OF this] ne show False by simp
      qed
      from e1[OF ne0] f have po: "posted s2 = posted s @ [(r, b)]"
        and un: "\<forall>j. j \<notin> set (activeDipoleIndices s0) \<longrightarrow>
            slot s2 r j = slot ?s1 r j \<and> slot s2 b j = slot ?s1 b j"
        by auto
      have sl: "\<And>c j. slot ?s1 c j = slot s c j" using f by (simp add: slot_def)
      have a0: "set (activeDipoleIndices s0) \<subseteq>
          set (activeDipoleIndices s) \<union> (if instanceIndices s = [] then {} else {last (instanceIndices s)})"
        using spawnDecision_active(1)[OF sp] f by (auto split: if_splits)
      have "\<forall>j. j \<notin> set (activeDipoleIndices s) \<and>
               (instanceIndices s = [] \<or> j \<noteq> last (instanceIndices s)) \<longrightarrow>
               slot s2 r j = slot s r j \<and> slot s2 b j = slot s b j"
      proof (intro allI impI)
        fix j assume j: "j \<notin> set (activeDipoleIndices s) \<and>
               (instanceIndices s = [] \<or> j \<noteq> last (instanceIndices s))"
        then have "j \<notin> set (activeDipoleIndices s0)" using a0 by (auto split: if_splits)
        with un sl show "slot s2 r j = slot s r j \<and> slot s2 b j = slot s b j" by simp
      qed
      with po show ?thesis by simp
    qed
  qed
  from st f discard stale show ?thesis by simp
qed

theorem returnBuffers_replaces_witness:
  "redMatricesBuffer (onReturnBuffers 0 1 spawned_state) = Some 0 \<and>
   blueMatricesBuffer (onReturnBuffers 0 1 spawned_state) = Some 1 \<and>
   posted (projr (updateSimulation 1032 demo_draws (onReturnBuffers 0 1 spawned_state))) =
     [(0, 1), (2, 3), (0, 1)] \<and>
   heap (projr (updateSimulation 1032 demo_draws (onReturnBuffers 0 1 spawned_state))) 4 =
     heap spawned_state 4"
proof -
  have tick: "updateSimulation 1032 demo_draws (onReturnBuffers 0 1 spawned_state) =
      Inr (projr (updateSimulation 1032 demo_draws (onReturnBuffers 0 1 spawned_state)))"
    by (simp add: spawned_state_def eval_defs)
  have pub: "posted (projr (updateSimulation 1032 demo_draws (onReturnBuffers 0 1 spawned_state)))
      \<noteq> posted spawned_state"
    by (simp add: spawned_state_def eval_defs)
  have old: "redMatricesBuffer spawned_state = Some 4"
    by (simp add: spawned_state_def eval_defs)
  have later: "run (onReturnBuffers 0 1 spawned_state) [Frame 1032 demo_draws] =
      Inr (projr (updateSimulation 1032 demo_draws (onReturnBuffers 0 1 spawned_state)))"
    using tick by (simp only: run_single)
  have nr: "\<forall>e\<in>set [Frame 1032 demo_draws]. \<not> returns 4 e" by simp
  from returnBuffers_replaces[OF spawned_run, of 0 1 4 "[Frame 1032 demo_draws]"
      "projr (updateSimulation 1032 demo_draws (onReturnBuffers 0 1 spawned_state))"
      1032 demo_draws
      "projr (updateSimulation 1032 demo_draws (onReturnBuffers 0 1 spawned_state))"]
    spawned_state_fields(1,9) tick pub old later nr
  show ?thesis by simp
qed

end
